theory Spec2Isabelle
  imports
    Complex_Main
    "HOL-Library.Char_ord"
    "HOL-Library.List_Lexorder"
    "HOL-Library.Multiset"
    "HOL-Library.Product_Lexorder"
begin

section \<open>Text primitives\<close>

text \<open>
  Python strings are modelled as \<^typ>\<open>string\<close>: a list of bytes, a character beyond
  ASCII being its UTF-8 sequence.  White space and letter case are the ASCII ones
  (for \<open>str.split()\<close>, \<open>str.strip()\<close>, \<open>str.lower()\<close>, \<open>str.upper()\<close> and the
  regular-expression classes \<open>\s\<close>, \<open>\d\<close>, \<open>[A-Z]\<close>).
\<close>

definition LF :: char where
  "LF = CHR 0x0A"

definition is_space :: "char \<Rightarrow> bool" where
  "is_space c \<longleftrightarrow> c \<in> set [CHR 0x09, CHR 0x0A, CHR 0x0B, CHR 0x0C, CHR 0x0D,
                           CHR 0x1C, CHR 0x1D, CHR 0x1E, CHR 0x1F, CHR 0x20]"

definition is_digit :: "char \<Rightarrow> bool" where
  "is_digit c \<longleftrightarrow> c \<in> set ''0123456789''"

definition is_upper :: "char \<Rightarrow> bool" where
  "is_upper c \<longleftrightarrow> c \<in> set ''ABCDEFGHIJKLMNOPQRSTUVWXYZ''"

definition digit_val :: "char \<Rightarrow> nat option" where
  "digit_val c = map_of (zip ''0123456789'' [0, 1, 2, 3, 4, 5, 6, 7, 8, 9]) c"

definition lower_char :: "char \<Rightarrow> char" where
  "lower_char c =
     (case map_of (zip ''ABCDEFGHIJKLMNOPQRSTUVWXYZ'' ''abcdefghijklmnopqrstuvwxyz'') c of
        Some d \<Rightarrow> d | None \<Rightarrow> c)"

definition upper_char :: "char \<Rightarrow> char" where
  "upper_char c =
     (case map_of (zip ''abcdefghijklmnopqrstuvwxyz'' ''ABCDEFGHIJKLMNOPQRSTUVWXYZ'') c of
        Some d \<Rightarrow> d | None \<Rightarrow> c)"

text \<open>\<open>s.lower()\<close>, \<open>s.upper()\<close>, \<open>s.strip()\<close>, \<open>s.replace(c, '')\<close> for a one-character \<open>c\<close>.\<close>

definition str_lower :: "string \<Rightarrow> string" where
  "str_lower s = map lower_char s"

definition str_upper :: "string \<Rightarrow> string" where
  "str_upper s = map upper_char s"

definition str_strip :: "string \<Rightarrow> string" where
  "str_strip s = rev (dropWhile is_space (rev (dropWhile is_space s)))"

definition str_remove :: "char \<Rightarrow> string \<Rightarrow> string" where
  "str_remove c s = filter (\<lambda>x. x \<noteq> c) s"

text \<open>\<open>sub in s\<close>: \<open>sub\<close> occurs in \<open>s\<close> as a contiguous run.\<close>

fun starts_with :: "string \<Rightarrow> string \<Rightarrow> bool" where
  "starts_with [] s = True"
| "starts_with (p # ps) [] = False"
| "starts_with (p # ps) (c # cs) = (p = c \<and> starts_with ps cs)"

fun str_in :: "string \<Rightarrow> string \<Rightarrow> bool" where
  "str_in sub [] = (sub = [])"
| "str_in sub (c # cs) = (starts_with sub (c # cs) \<or> str_in sub cs)"

text \<open>\<open>s.split(c)\<close> for a one-character separator: always at least one piece.\<close>

fun split_on :: "char \<Rightarrow> string \<Rightarrow> string list" where
  "split_on sep [] = [[]]"
| "split_on sep (c # cs) =
     (if c = sep then [] # split_on sep cs
      else (case split_on sep cs of
              [] \<Rightarrow> [[c]]
            | piece # pieces \<Rightarrow> (c # piece) # pieces))"

definition split_lines :: "string \<Rightarrow> string list" where
  "split_lines s = split_on LF s"

text \<open>\<open>s.split()\<close>: the maximal runs of characters that are not white space.\<close>

fun split_ws_from :: "string \<Rightarrow> string \<Rightarrow> string list" where
  "split_ws_from cur [] = (if cur = [] then [] else [cur])"
| "split_ws_from cur (c # cs) =
     (if is_space c
      then (if cur = [] then split_ws_from [] cs else cur # split_ws_from [] cs)
      else split_ws_from (cur @ [c]) cs)"

definition str_split :: "string \<Rightarrow> string list" where
  "str_split s = split_ws_from [] s"

text \<open>
  \<open>int(s)\<close> in base 10: surrounding white space is dropped, then an optional sign, then
  digits, single underscores allowed between digits.  \<open>None\<close> is \<open>ValueError\<close>.
\<close>

fun int_body :: "nat \<Rightarrow> bool \<Rightarrow> string \<Rightarrow> nat option" where
  "int_body acc after_digit [] = (if after_digit then Some acc else None)"
| "int_body acc after_digit (c # cs) =
     (if c = CHR ''_''
      then (if after_digit \<and> cs \<noteq> [] then int_body acc False cs else None)
      else (case digit_val c of
              None \<Rightarrow> None
            | Some d \<Rightarrow> int_body (10 * acc + d) True cs))"

definition py_int :: "string \<Rightarrow> int option" where
  "py_int s =
     (case str_strip s of
        [] \<Rightarrow> None
      | c # cs \<Rightarrow>
          if c = CHR ''-'' then map_option (\<lambda>n. - int n) (int_body 0 False cs)
          else if c = CHR ''+'' then map_option int (int_body 0 False cs)
          else map_option int (int_body 0 False (c # cs)))"

section \<open>Pages and tables\<close>

text \<open>
  What the extraction library hands over: a page has its text (\<open>extract_text()\<close>, which
  may be \<open>None\<close>) and its raw tables (\<open>extract_tables()\<close>); a raw table is a list of
  rows, a row a list of cells, a cell a string or \<open>None\<close>.
\<close>

type_synonym cell = "string option"
type_synonym row = "cell list"
type_synonym raw_table = "row list"

record page =
  extract_text :: "string option"
  extract_tables :: "raw_table list"

type_synonym pdf = "page list"

datatype error = IndexError


text \<open>
  \<open>pdf.pages[i]\<close>: Python counts a negative index from the end and raises
  \<open>IndexError\<close> outside the list.
\<close>

definition page_at :: "pdf \<Rightarrow> int \<Rightarrow> error + page" where
  "page_at pdf i =
     (if 0 \<le> i \<and> i < int (length pdf) then Inr (pdf ! nat i)
      else if i < 0 \<and> - int (length pdf) \<le> i then Inr (pdf ! nat (int (length pdf) + i))
      else Inl IndexError)"

text \<open>\<open>[pdf.pages[i] for i in range(start_page, end_page + 1)]\<close>\<close>

fun pages_at :: "pdf \<Rightarrow> int list \<Rightarrow> error + page list" where
  "pages_at pdf [] = Inr []"
| "pages_at pdf (i # is) =
     (case page_at pdf i of
        Inl e \<Rightarrow> Inl e
      | Inr pg \<Rightarrow> (case pages_at pdf is of Inl e \<Rightarrow> Inl e | Inr pgs \<Rightarrow> Inr (pg # pgs)))"

definition span_pages :: "pdf \<Rightarrow> int \<Rightarrow> int \<Rightarrow> error + page list" where
  "span_pages pdf start_page end_page = pages_at pdf [start_page .. end_page]"

section \<open>Table normalisation\<close>

text \<open>
  The loop at the head of \<open>parse_non_freight_rates\<close> and of \<open>parse_freight_rates\<close>
  (the same code in both).  \<open>scan_cells\<close> is the loop over the cells of a row, building
  \<open>cell_lines\<close> and \<open>max_lines\<close>.
\<close>

fun scan_cells :: "row \<Rightarrow> string list list \<Rightarrow> nat \<Rightarrow> string list list \<times> nat" where
  "scan_cells [] cell_lines max_lines = (cell_lines, max_lines)"
| "scan_cells (None # cells) cell_lines max_lines =
     scan_cells cells (cell_lines @ [[[]]]) max_lines"
| "scan_cells (Some s # cells) cell_lines max_lines =
     scan_cells cells (cell_lines @ [split_lines s]) (max max_lines (length (split_lines s)))"

definition new_row :: "string list list \<Rightarrow> nat \<Rightarrow> row" where
  "new_row cell_lines line_idx =
     map (\<lambda>lines. if line_idx < length lines then Some (str_strip (lines ! line_idx))
                   else Some []) cell_lines"

definition normalize_row :: "row \<Rightarrow> row list" where
  "normalize_row row =
     (case scan_cells row [] 1 of
        (cell_lines, max_lines) \<Rightarrow>
          if max_lines = 1 then [row]
          else map (new_row cell_lines) [0 ..< max_lines])"

fun normalize_from :: "row list \<Rightarrow> raw_table \<Rightarrow> row list" where
  "normalize_from table [] = table"
| "normalize_from table (row # rows) =
     (if row = [] then normalize_from table rows
      else normalize_from (table @ normalize_row row) rows)"

definition normalize_table :: "raw_table \<Rightarrow> row list" where
  "normalize_table raw_table = normalize_from [] raw_table"

section \<open>Parsing cells\<close>

text \<open>
  Money amounts are \<open>Decimal\<close> values, modelled by their exact value as a rational.
  The \<open>Decimal(str)\<close> constructor is the parameter \<open>D\<close> of every function that parses an
  amount (\<open>None\<close> where the constructor raises); the model covers finite amounts whose
  products stay within the precision of the decimal context, where \<open>Decimal\<close>
  arithmetic is exact.
\<close>

type_synonym decimal = rat

definition em_dash :: string where
  "em_dash = [CHR 0xE2, CHR 0x80, CHR 0x94]"

definition en_dash :: string where
  "en_dash = [CHR 0xE2, CHR 0x80, CHR 0x93]"

text \<open>\<open>x.quantize(Decimal('0.01'), rounding=ROUND_HALF_UP)\<close>: ties go away from zero.\<close>

definition quantize2 :: "decimal \<Rightarrow> decimal" where
  "quantize2 x =
     (if 0 \<le> x then of_int \<lfloor>x * 100 + 1 / 2\<rfloor> / 100
      else - (of_int \<lfloor>- x * 100 + 1 / 2\<rfloor> / 100))"

fun clean_rate :: "(string \<Rightarrow> decimal option) \<Rightarrow> string option \<Rightarrow> decimal option" where
  "clean_rate D None = None"
| "clean_rate D (Some v) =
     (let cleaned = str_strip (str_remove (CHR '' '')
                      (str_remove (CHR '','') (str_remove (CHR ''$'') v)))
      in if cleaned = [] \<or> cleaned = em_dash \<or> cleaned = ''-'' then None
         else D cleaned)"

text \<open>Group 1 of \<open>re.match(r'(\d+)\s*lbs?\.?', line)\<close>.\<close>

definition match_lbs :: "string \<Rightarrow> string option" where
  "match_lbs line =
     (let ds = takeWhile is_digit line;
          rest = dropWhile is_space (dropWhile is_digit line)
      in if ds \<noteq> [] \<and> starts_with ''lb'' rest then Some ds else None)"

definition parse_weight_from_line :: "string \<Rightarrow> int option" where
  "parse_weight_from_line line0 =
     (let line = str_strip line0
      in if line = [] then None
         else (case match_lbs line of
                 Some ds \<Rightarrow> py_int ds
               | None \<Rightarrow>
                   (case str_split line of
                      [] \<Rightarrow> None
                    | part # parts \<Rightarrow>
                        (case py_int part of
                           None \<Rightarrow> None
                         | Some weight \<Rightarrow>
                             if 1 \<le> weight \<and> weight \<le> 2000 then Some weight else None))))"

fun zones_of_parts :: "string list \<Rightarrow> int list" where
  "zones_of_parts [] = []"
| "zones_of_parts (part # parts) =
     (case py_int part of
        None \<Rightarrow> zones_of_parts parts
      | Some zone \<Rightarrow>
          if 1 \<le> zone \<and> zone \<le> 16 then zone # zones_of_parts parts
          else zones_of_parts parts)"

definition parse_zone_numbers :: "string \<Rightarrow> int list" where
  "parse_zone_numbers header_text =
     (if header_text = [] then [] else zones_of_parts (str_split header_text))"

fun rates_of_parts :: "(string \<Rightarrow> decimal option) \<Rightarrow> string list \<Rightarrow> decimal list" where
  "rates_of_parts D [] = []"
| "rates_of_parts D (part # parts) =
     (case clean_rate D (Some part) of
        None \<Rightarrow> rates_of_parts D parts
      | Some rate \<Rightarrow> rate # rates_of_parts D parts)"

definition parse_rates_line :: "(string \<Rightarrow> decimal option) \<Rightarrow> string \<Rightarrow> decimal list" where
  "parse_rates_line D rates_text =
     (if rates_text = [] then []
      else rates_of_parts D (str_split (str_remove (CHR ''$'') rates_text)))"

text \<open>\<open>str(c).strip() if c else ''\<close>\<close>

fun cell_text :: "cell \<Rightarrow> string" where
  "cell_text None = []"
| "cell_text (Some s) = (if s = [] then [] else str_strip s)"

text \<open>
  \<open>for i, zone in enumerate(zones): m[zone] = rate_values[i]\<close>, and the loop over
  \<open>rate_values\<close> guarded by \<open>i < len(zones)\<close>: both stop with the shorter list.
\<close>

fun assign :: "int list \<Rightarrow> decimal list \<Rightarrow> (int \<rightharpoonup> decimal) \<Rightarrow> (int \<rightharpoonup> decimal)" where
  "assign (zone # zones) (rate # rate_values) m = assign zones rate_values (m(zone \<mapsto> rate))"
| "assign zones rate_values m = m"

text \<open>\<open>d.get(k, {})\<close> for a dictionary of dictionaries.\<close>

definition sub_map :: "('k \<rightharpoonup> (int \<rightharpoonup> decimal)) \<Rightarrow> 'k \<Rightarrow> (int \<rightharpoonup> decimal)" where
  "sub_map d k = (case d k of None \<Rightarrow> Map.empty | Some m \<Rightarrow> m)"

section \<open>Flat-rate builder (\<open>parse_non_freight_rates\<close>)\<close>

type_synonym rate_table = "int \<rightharpoonup> (int \<rightharpoonup> decimal)"

record flat_state =
  fl_rates :: rate_table
  fl_per_pound :: "int \<rightharpoonup> decimal"

fun zones_in_row :: "row \<Rightarrow> int list" where
  "zones_in_row [] = []"
| "zones_in_row (None # cells) = zones_in_row cells"
| "zones_in_row (Some s # cells) =
     (if s \<noteq> [] \<and> 7 \<le> length (parse_zone_numbers s) then parse_zone_numbers s
      else zones_in_row cells)"

fun header_zones :: "row list \<Rightarrow> int list" where
  "header_zones [] = []"
| "header_zones (row # rows) =
     (if zones_in_row row \<noteq> [] then zones_in_row row else header_zones rows)"

fun flat_row :: "(string \<Rightarrow> decimal option) \<Rightarrow> int list \<Rightarrow> flat_state \<Rightarrow> row \<Rightarrow> flat_state" where
  "flat_row D zones st (c0 # c1 # cells) =
     (let weight_cell = cell_text c0;
          rates_cell = cell_text c1;
          label = str_lower weight_cell
      in if str_in ''weight'' label \<or> str_in ''zone'' label then st
         else if str_in ''envelope'' label \<or> str_in ''pak'' label then st
         else if str_in ''100 lbs'' label \<or> str_in ''100lbs'' (str_remove (CHR '' '') label)
         then (let rate_values = parse_rates_line D rates_cell
               in if length rate_values = length zones
                  then st\<lparr>fl_per_pound := assign zones rate_values (fl_per_pound st)\<rparr>
                  else st)
         else (case parse_weight_from_line weight_cell of
                 None \<Rightarrow> st
               | Some weight \<Rightarrow>
                   if weight < 1 \<or> weight > 99 then st
                   else (let rate_values = parse_rates_line D rates_cell
                         in if rate_values = [] then st
                            else st\<lparr>fl_rates := (fl_rates st)
                                   (weight \<mapsto> assign zones rate_values
                                                (sub_map (fl_rates st) weight))\<rparr>)))"
| "flat_row D zones st short_row = st"

definition flat_table :: "(string \<Rightarrow> decimal option) \<Rightarrow> flat_state \<Rightarrow> raw_table \<Rightarrow> flat_state" where
  "flat_table D st raw_table =
     (let table = normalize_table raw_table
      in if table = [] then st
         else (let zones = header_zones (take 5 table)
               in if zones = [] then st
                  else foldl (flat_row D zones) st table))"

definition flat_page :: "(string \<Rightarrow> decimal option) \<Rightarrow> flat_state \<Rightarrow> page \<Rightarrow> flat_state" where
  "flat_page D st pg = foldl (flat_table D) st (extract_tables pg)"

definition flat_scan :: "(string \<Rightarrow> decimal option) \<Rightarrow> page list \<Rightarrow> flat_state" where
  "flat_scan D pages =
     foldl (flat_page D) \<lparr>fl_rates = Map.empty, fl_per_pound = Map.empty\<rparr> pages"

text \<open>The closing loop: \<open>for weight in range(100, 151)\<close>, \<open>for zone in range(1, 17)\<close>.\<close>

definition overage_zones :: "(int \<rightharpoonup> decimal) \<Rightarrow> int \<Rightarrow> (int \<rightharpoonup> decimal)" where
  "overage_zones per_pound weight =
     foldl (\<lambda>m zone. case per_pound zone of
                        None \<Rightarrow> m
                      | Some r \<Rightarrow> m(zone \<mapsto> quantize2 (of_int weight * r)))
           Map.empty [1 .. 16]"

definition overage :: "flat_state \<Rightarrow> rate_table" where
  "overage st =
     foldl (\<lambda>rates weight. rates(weight \<mapsto> overage_zones (fl_per_pound st) weight))
           (fl_rates st) [100 .. 150]"

definition parse_non_freight_rates ::
    "(string \<Rightarrow> decimal option) \<Rightarrow> pdf \<Rightarrow> int \<Rightarrow> int \<Rightarrow> error + rate_table" where
  "parse_non_freight_rates D pdf start_page end_page =
     (case span_pages pdf start_page end_page of
        Inl e \<Rightarrow> Inl e
      | Inr pages \<Rightarrow> Inr (overage (flat_scan D pages)))"

section \<open>Freight builder (\<open>parse_freight_rates\<close>)\<close>

record freight_state =
  fr_per_pound :: "(int \<times> int) \<rightharpoonup> (int \<rightharpoonup> decimal)"
  fr_minimum :: "int \<rightharpoonup> decimal"

definition brackets :: "(string \<times> (int \<times> int)) list" where
  "brackets =
     [(''151 to 299'', (151, 299)),
      (''300 to 499'', (300, 499)),
      (''500 to 999'', (500, 999)),
      (''1000 to 1999'', (1000, 1999)),
      (''1000 to1999'', (1000, 1999)),
      (''2000 or more'', (2000, 2000))]"

text \<open>The loop over \<open>brackets.items()\<close> up to its \<open>break\<close>: the first phrase found in the label.\<close>

fun match_bracket :: "(string \<times> (int \<times> int)) list \<Rightarrow> string \<Rightarrow> (int \<times> int) option" where
  "match_bracket [] weight_cell = None"
| "match_bracket ((bracket_name, bracket_key) # rest) weight_cell =
     (if str_in (str_remove (CHR '' '') (str_lower bracket_name))
                (str_remove (CHR '' '') (str_lower weight_cell))
      then Some bracket_key
      else match_bracket rest weight_cell)"

fun freight_row ::
    "(string \<Rightarrow> decimal option) \<Rightarrow> int list \<times> freight_state \<Rightarrow> row \<Rightarrow> int list \<times> freight_state" where
  "freight_row D (zones, st) (c0 # c1 # cells) =
     (let weight_cell = cell_text c0;
          rates_cell = cell_text c1
      in if zones = [] \<and> 7 \<le> length (parse_zone_numbers rates_cell)
         then (parse_zone_numbers rates_cell, st)
         else if zones = [] then (zones, st)
         else if str_in ''minimum'' (str_lower weight_cell)
         then (let rate_values = parse_rates_line D rates_cell
               in if length rate_values = length zones
                  then (zones, st\<lparr>fr_minimum := assign zones rate_values (fr_minimum st)\<rparr>)
                  else (zones, st))
         else (case match_bracket brackets weight_cell of
                 None \<Rightarrow> (zones, st)
               | Some bracket_key \<Rightarrow>
                   (let rate_values = parse_rates_line D rates_cell
                    in if length rate_values = length zones
                       then (zones, st\<lparr>fr_per_pound := (fr_per_pound st)
                               (bracket_key \<mapsto> assign zones rate_values
                                  (sub_map (fr_per_pound st) bracket_key))\<rparr>)
                       else (zones, st))))"
| "freight_row D (zones, st) short_row = (zones, st)"

definition freight_page :: "(string \<Rightarrow> decimal option) \<Rightarrow> freight_state \<Rightarrow> page \<Rightarrow> freight_state" where
  "freight_page D st pg =
     (case extract_tables pg of
        [] \<Rightarrow> st
      | raw_table # others \<Rightarrow> snd (foldl (freight_row D) ([], st) (normalize_table raw_table)))"

definition freight_scan :: "(string \<Rightarrow> decimal option) \<Rightarrow> page list \<Rightarrow> freight_state" where
  "freight_scan D pages =
     foldl (freight_page D) \<lparr>fr_per_pound = Map.empty, fr_minimum = Map.empty\<rparr> pages"





section \<open>Service detection (\<open>detect_service_pages\<close>)\<close>

record service_def =
  sd_name :: string
  sd_search :: string
  sd_page_count :: int
  sd_is_freight :: bool

record service =
  sv_name :: string
  sv_pages :: "int \<times> int"
  sv_is_freight :: bool

definition SERVICE_DEFINITIONS :: "service_def list" where
  "SERVICE_DEFINITIONS =
     [\<lparr>sd_name = ''FedEx First Overnight'', sd_search = ''FedEx First Overnight'',
       sd_page_count = 4, sd_is_freight = False\<rparr>,
      \<lparr>sd_name = ''FedEx Priority Overnight'', sd_search = ''FedEx Priority Overnight'',
       sd_page_count = 4, sd_is_freight = False\<rparr>,
      \<lparr>sd_name = ''FedEx Standard Overnight'', sd_search = ''FedEx Standard Overnight'',
       sd_page_count = 4, sd_is_freight = False\<rparr>,
      \<lparr>sd_name = ''FedEx 2Day'', sd_search = ''FedEx 2Day'',
       sd_page_count = 4, sd_is_freight = False\<rparr>,
      \<lparr>sd_name = ''FedEx Economy'', sd_search = ''FedEx Economy'',
       sd_page_count = 4, sd_is_freight = False\<rparr>,
      \<lparr>sd_name = ''FedEx 1Day Freight'', sd_search = ''FedEx 1Day'',
       sd_page_count = 2, sd_is_freight = True\<rparr>]"

text \<open>\<open>page.extract_text() or ""\<close>\<close>

definition page_text :: "page \<Rightarrow> string" where
  "page_text pg = (case extract_text pg of None \<Rightarrow> [] | Some t \<Rightarrow> t)"

text \<open>The loop over \<open>lines[:5]\<close>: one of the first five lines holds both the phrase and \<open>Rates\<close>.\<close>

definition title_found :: "string \<Rightarrow> page \<Rightarrow> bool" where
  "title_found search_term pg =
     list_ex (\<lambda>line. str_in search_term line \<and> str_in ''Rates'' line)
             (take 5 (split_lines (page_text pg)))"

definition already_assigned :: "service list \<Rightarrow> int \<Rightarrow> bool" where
  "already_assigned services i =
     list_ex (\<lambda>s. fst (sv_pages s) \<le> i \<and> i \<le> snd (sv_pages s)) services"

text \<open>The loop over \<open>enumerate(pdf.pages)\<close>, from page \<open>i\<close> on, up to its \<open>break\<close>.\<close>

fun find_start :: "service list \<Rightarrow> string \<Rightarrow> page list \<Rightarrow> int \<Rightarrow> int option" where
  "find_start services search_term [] i = None"
| "find_start services search_term (pg # pgs) i =
     (if title_found search_term pg \<and> \<not> already_assigned services i then Some i
      else find_start services search_term pgs (i + 1))"

definition detect_step :: "pdf \<Rightarrow> service list \<Rightarrow> service_def \<Rightarrow> service list" where
  "detect_step pdf services service_def =
     (case find_start services (sd_search service_def) pdf 0 of
        None \<Rightarrow> services
      | Some start_page \<Rightarrow>
          services @ [\<lparr>sv_name = sd_name service_def,
                       sv_pages = (start_page, start_page + sd_page_count service_def - 1),
                       sv_is_freight = sd_is_freight service_def\<rparr>])"

definition detect_with :: "service_def list \<Rightarrow> pdf \<Rightarrow> service list" where
  "detect_with defs pdf = foldl (detect_step pdf) [] defs"

definition detect_service_pages :: "pdf \<Rightarrow> service list" where
  "detect_service_pages pdf = detect_with SERVICE_DEFINITIONS pdf"

section \<open>Zone index (\<open>find_zone_index_pages\<close>, the postal map, the zone matrix)\<close>



text \<open>
  The postal map is a dictionary whose order of insertion matters (the first range that
  holds the origin wins): an association list, \<open>dict_set\<close> being \<open>d[k] = v\<close>.
\<close>

type_synonym postal_zone_map = "((string \<times> string) \<times> string) list"

fun dict_set :: "'k \<Rightarrow> 'v \<Rightarrow> ('k \<times> 'v) list \<Rightarrow> ('k \<times> 'v) list" where
  "dict_set k v [] = [(k, v)]"
| "dict_set k v ((k', v') # rest) =
     (if k' = k then (k, v) # rest else (k', v') # dict_set k v rest)"

text \<open>
  The pattern \<open>([A-Z]\d[A-Z])\s*[em-dash en-dash -]\s*([A-Z]\d[A-Z])\s+(D[A-Z])\<close>, piece by piece; each
  piece returns what it matched and the rest of the text.
\<close>

fun take_fsa :: "string \<Rightarrow> (string \<times> string) option" where
  "take_fsa (a # b # c # rest) =
     (if is_upper a \<and> is_digit b \<and> is_upper c then Some ([a, b, c], rest) else None)"
| "take_fsa short = None"

definition take_dash :: "string \<Rightarrow> string option" where
  "take_dash s =
     (if starts_with em_dash s then Some (drop 3 s)
      else if starts_with en_dash s then Some (drop 3 s)
      else if starts_with ''-'' s then Some (drop 1 s)
      else None)"

fun take_zone :: "string \<Rightarrow> (string \<times> string) option" where
  "take_zone (a # b # rest) =
     (if a = CHR ''D'' \<and> is_upper b then Some ([a, b], rest) else None)"
| "take_zone short = None"

definition match_range :: "string \<Rightarrow> ((string \<times> string \<times> string) \<times> string) option" where
  "match_range s =
     (case take_fsa s of
        None \<Rightarrow> None
      | Some (start_postal, s1) \<Rightarrow>
          (case take_dash (dropWhile is_space s1) of
             None \<Rightarrow> None
           | Some s2 \<Rightarrow>
               (case take_fsa (dropWhile is_space s2) of
                  None \<Rightarrow> None
                | Some (end_postal, s3) \<Rightarrow>
                    if takeWhile is_space s3 = [] then None
                    else (case take_zone (dropWhile is_space s3) of
                            None \<Rightarrow> None
                          | Some (zone_code, s4) \<Rightarrow>
                              Some ((start_postal, end_postal, zone_code), s4)))))"

text \<open>
  \<open>range_pattern.finditer(text)\<close>: the matches from left to right, the search resuming
  where the last match ended; \<open>skip\<close> counts the characters still inside that match.
\<close>

fun find_ranges :: "nat \<Rightarrow> string \<Rightarrow> (string \<times> string \<times> string) list" where
  "find_ranges skip [] = []"
| "find_ranges skip (c # cs) =
     (if 0 < skip then find_ranges (skip - 1) cs
      else (case match_range (c # cs) of
              None \<Rightarrow> find_ranges 0 cs
            | Some (groups, rest) \<Rightarrow> groups # find_ranges (length cs - length rest) cs))"

definition regex_pass :: "string \<Rightarrow> postal_zone_map" where
  "regex_pass text =
     foldl (\<lambda>m (start_postal, end_postal, zone_code).
              dict_set (start_postal, end_postal) zone_code m)
           [] (find_ranges 0 text)"

text \<open>The token scan: \<open>re.match(r'^[A-Z]\d[A-Z]$', part)\<close> and \<open>re.match(r'^D[A-Z]$', part)\<close>.\<close>

definition is_fsa :: "string \<Rightarrow> bool" where
  "is_fsa part \<longleftrightarrow> (case take_fsa part of Some (code, rest) \<Rightarrow> rest = [] | None \<Rightarrow> False)"

definition is_zone_code :: "string \<Rightarrow> bool" where
  "is_zone_code part \<longleftrightarrow> (case take_zone part of Some (code, rest) \<Rightarrow> rest = [] | None \<Rightarrow> False)"

definition already_covered :: "string \<Rightarrow> postal_zone_map \<Rightarrow> bool" where
  "already_covered part m = list_ex (\<lambda>((start, end), zone). start = part \<and> end \<noteq> part) m"

text \<open>The \<open>while i < len(parts)\<close> loop, from index \<open>i\<close>.\<close>

function scan_parts :: "string list \<Rightarrow> nat \<Rightarrow> postal_zone_map \<Rightarrow> postal_zone_map" where
  "scan_parts parts i m =
     (if i < length parts
      then (if is_fsa (parts ! i) \<and> i + 1 < length parts \<and> is_zone_code (parts ! (i + 1))
            then (if 0 < i \<and> parts ! (i - 1) \<in> set [em_dash, en_dash, ''-'']
                  then scan_parts parts (i + 2) m
                  else if already_covered (parts ! i) m
                  then scan_parts parts (i + 1) m
                  else scan_parts parts (i + 1)
                         (dict_set (parts ! i, parts ! i) (parts ! (i + 1)) m))
            else scan_parts parts (i + 1) m)
      else m)"
  by pat_completeness auto
termination
  by (relation "measure (\<lambda>(parts, i, m). length parts - i)") auto

declare scan_parts.simps [simp del]

definition scan_line :: "postal_zone_map \<Rightarrow> string \<Rightarrow> postal_zone_map" where
  "scan_line m line =
     (if str_in ''Postal Code'' line \<and> str_in ''Zone'' line then m
      else scan_parts (str_split line) 0 m)"

definition token_pass :: "string \<Rightarrow> postal_zone_map \<Rightarrow> postal_zone_map" where
  "token_pass text m = foldl scan_line m (split_lines text)"

definition postal_map_of_text :: "string \<Rightarrow> postal_zone_map" where
  "postal_map_of_text text = token_pass text (regex_pass text)"


subsection \<open>The zone matrix (\<open>parse_zone_matrix\<close>)\<close>

type_synonym zone_matrix = "(string \<times> string) \<rightharpoonup> int"

definition ZONE_CODES :: "string list" where
  "ZONE_CODES =
     [''DA'', ''DB'', ''DC'', ''DD'', ''DE'', ''DF'', ''DG'', ''DH'', ''DI'', ''DJ'',
      ''DK'', ''DL'', ''DM'', ''DN'', ''DO'', ''DP'', ''DQ'', ''DR'', ''DS'', ''DT'',
      ''DU'', ''DV'', ''DW'', ''DX'', ''DY'', ''DZ'']"

text \<open>\<open>max(tables, key=lambda t: len(t))\<close>: the first table of the greatest length.\<close>

fun longest_from :: "raw_table \<Rightarrow> raw_table list \<Rightarrow> raw_table" where
  "longest_from best [] = best"
| "longest_from best (t # ts) = longest_from (if length best < length t then t else best) ts"

text \<open>\<open>str(c) if c else ''\<close>\<close>

fun cell_str :: "cell \<Rightarrow> string" where
  "cell_str None = []"
| "cell_str (Some s) = s"

fun ints_of_parts :: "string list \<Rightarrow> int list" where
  "ints_of_parts [] = []"
| "ints_of_parts (val # vals) =
     (case py_int val of
        None \<Rightarrow> ints_of_parts vals
      | Some v \<Rightarrow> v # ints_of_parts vals)"

text \<open>\<open>for j, dest_zone in enumerate(dest_zones): zone_matrix[(origin_zone, dest_zone)] = values[j]\<close>\<close>

fun bind_dests :: "string \<Rightarrow> string list \<Rightarrow> int list \<Rightarrow> zone_matrix \<Rightarrow> zone_matrix" where
  "bind_dests origin_zone (dest_zone # dest_zones) (v # vs) zm =
     bind_dests origin_zone dest_zones vs (zm((origin_zone, dest_zone) \<mapsto> v))"
| "bind_dests origin_zone dest_zones vs zm = zm"

text \<open>The loop over \<open>enumerate(origin_lines)\<close>, from line \<open>i\<close>.\<close>

fun matrix_lines :: "string list \<Rightarrow> string list \<Rightarrow> nat \<Rightarrow> zone_matrix \<Rightarrow> zone_matrix" where
  "matrix_lines [] values_lines i zm = zm"
| "matrix_lines (origin_line # origin_lines) values_lines i zm =
     (let origin_zone = str_strip origin_line
      in if origin_zone \<notin> set ZONE_CODES then matrix_lines origin_lines values_lines (i + 1) zm
         else if i < length values_lines
         then (let values = ints_of_parts (str_split (str_strip (values_lines ! i)))
               in if length values = length ZONE_CODES
                  then matrix_lines origin_lines values_lines (i + 1)
                         (bind_dests origin_zone ZONE_CODES values zm)
                  else matrix_lines origin_lines values_lines (i + 1) zm)
         else matrix_lines origin_lines values_lines (i + 1) zm)"

fun matrix_row :: "zone_matrix \<Rightarrow> row \<Rightarrow> zone_matrix" where
  "matrix_row zm (c0 # c1 # cells) =
     (let first_cell = cell_str c0;
          second_cell = cell_str c1
      in if str_in ''Origin'' first_cell \<or> str_in ''Destination'' first_cell then zm
         else if str_in ''DA DB DC'' second_cell then zm
         else (let origin_cell = str_strip first_cell;
                   values_cell = str_strip second_cell
               in if origin_cell = [] \<or> values_cell = [] then zm
                  else matrix_lines (split_lines origin_cell) (split_lines values_cell) 0 zm))"
| "matrix_row zm short_row = zm"

definition matrix_of_tables :: "raw_table list \<Rightarrow> zone_matrix" where
  "matrix_of_tables tables =
     (case tables of
        [] \<Rightarrow> Map.empty
      | t # ts \<Rightarrow> foldl matrix_row Map.empty (longest_from t ts))"

definition parse_zone_matrix :: "pdf \<Rightarrow> int option \<Rightarrow> error + zone_matrix" where
  "parse_zone_matrix pdf zone_matrix_page =
     (case zone_matrix_page of
        None \<Rightarrow> Inr Map.empty
      | Some i \<Rightarrow>
          (case page_at pdf i of
             Inl e \<Rightarrow> Inl e
           | Inr pg \<Rightarrow> Inr (matrix_of_tables (extract_tables pg))))"

section \<open>Zone resolver (\<open>get_zone_code_for_postal\<close>, \<open>generate_zones_data\<close>)\<close>

fun first_range :: "string \<Rightarrow> postal_zone_map \<Rightarrow> string option" where
  "first_range fsa [] = None"
| "first_range fsa (((start_postal, end_postal), zone_code) # rest) =
     (if start_postal \<le> fsa \<and> fsa \<le> end_postal then Some zone_code
      else first_range fsa rest)"

definition get_zone_code_for_postal :: "string \<Rightarrow> postal_zone_map \<Rightarrow> string option" where
  "get_zone_code_for_postal postal_code postal_zone_map =
     first_range (str_upper (take 3 postal_code)) postal_zone_map"

record zone_row =
  country_name :: string
  country_symbol :: string
  numerical_zone :: int
  city :: string
  start_postal :: string
  end_postal :: string

text \<open>The loop over \<open>sorted(postal_zone_map.items())\<close>, appending to \<open>zones_data\<close>.\<close>

fun zone_rows :: "string \<Rightarrow> zone_matrix \<Rightarrow> zone_row list \<Rightarrow> postal_zone_map \<Rightarrow> zone_row list" where
  "zone_rows origin_zone zm zones_data [] = zones_data"
| "zone_rows origin_zone zm zones_data (((s, e), dest_zone_code) # items) =
     zone_rows origin_zone zm
       (zones_data @
          [\<lparr>country_name = ''Canada'', country_symbol = ''CA'',
            numerical_zone = (case zm (origin_zone, dest_zone_code) of
                                Some z \<Rightarrow> z | None \<Rightarrow> 16),
            city = [], start_postal = s, end_postal = e\<rparr>])
       items"

definition generate_zones_data :: "string \<Rightarrow> postal_zone_map \<Rightarrow> zone_matrix \<Rightarrow> zone_row list" where
  "generate_zones_data origin_postal postal_zone_map zm =
     (case get_zone_code_for_postal origin_postal postal_zone_map of
        None \<Rightarrow> []
      | Some origin_zone \<Rightarrow> zone_rows origin_zone zm [] (sort postal_zone_map))"

section \<open>The command (\<open>cmd_parse_ca_rates\<close>)\<close>

text \<open>
  The command returns exit code 1 when the input file is missing (here: no document),
  and otherwise hands the zone rows and the rate tables to the writer and returns 0.
  An exception of a parser leaves the command as it was raised (\<open>Inl\<close>).
\<close>

record ca_result =
  exit_code :: int
  zones_data :: "zone_row list option"
  services_data :: "(string \<times> rate_table \<times> bool) list"




section \<open>Reading a result; example documents\<close>


text \<open>
  For the examples, \<open>Decimal(str)\<close> on plain fixed-point literals: an optional sign, digits,
  an optional point and digits.
\<close>

fun dec_digits :: "nat \<Rightarrow> string \<Rightarrow> nat option" where
  "dec_digits acc [] = Some acc"
| "dec_digits acc (c # cs) =
     (case digit_val c of None \<Rightarrow> None | Some d \<Rightarrow> dec_digits (10 * acc + d) cs)"

definition plain_unsigned :: "string \<Rightarrow> decimal option" where
  "plain_unsigned s =
     (let whole = takeWhile (\<lambda>c. c \<noteq> CHR ''.'') s;
          frac = drop 1 (dropWhile (\<lambda>c. c \<noteq> CHR ''.'') s)
      in if whole = [] \<and> frac = [] then None
         else (case (dec_digits 0 whole, dec_digits 0 frac) of
                 (Some a, Some b) \<Rightarrow> Some (of_nat a + of_nat b / 10 ^ length frac)
               | _ \<Rightarrow> None))"

definition plain_decimal :: "string \<Rightarrow> decimal option" where
  "plain_decimal s =
     (case s of
        [] \<Rightarrow> None
      | c # cs \<Rightarrow>
          if c = CHR ''-'' then map_option uminus (plain_unsigned cs)
          else if c = CHR ''+'' then plain_unsigned cs
          else plain_unsigned s)"


definition no_overage_example :: pdf where
  "no_overage_example =
     [\<lparr>extract_text = Some ''FedEx Economy Rates'',
       extract_tables =
         [[[Some ''Weight'', Some ''1 2 3 4 5 6 7''],
           [Some ''1 lb'', Some ''$10.00 11.00 12.00 13.00 14.00 15.00 16.00'']]]\<rparr>]"


definition dup_example :: pdf where
  "dup_example =
     [\<lparr>extract_text = Some ''FedEx 1Day Freight Rates'',
       extract_tables =
         [[[Some ''Weight (lbs)'', Some ''1 2 3 4 5 6 7''],
           [Some ''151 to 299 lbs'', Some ''0.50 0.50 0.50 0.50 0.50 0.50 0.50''],
           [Some ''151 to 299 lbs'', Some ''0.60 0.60 0.60 0.60 0.60 0.60 0.60'']]]\<rparr>]"

text \<open>A row that records per-pound rates for bracket \<open>b\<close> under the header \<open>zones\<close>.\<close>

fun writes_bracket :: "(string \<Rightarrow> decimal option) \<Rightarrow> int list \<Rightarrow> int \<times> int \<Rightarrow> row \<Rightarrow> bool" where
  "writes_bracket D zones b (c0 # c1 # cells) =
     (\<not> str_in ''minimum'' (str_lower (cell_text c0)) \<and>
      match_bracket brackets (cell_text c0) = Some b \<and>
      length (parse_rates_line D (cell_text c1)) = length zones)"
| "writes_bracket D zones b short_row = False"

text \<open>The lines of a cell, as \<open>cell_lines\<close> holds them: an absent cell is one empty line.\<close>

fun cell_lines_of :: "cell \<Rightarrow> string list" where
  "cell_lines_of None = [[]]"
| "cell_lines_of (Some s) = split_lines s"

definition max_lines_of :: "row \<Rightarrow> nat" where
  "max_lines_of row = Max (insert 1 (set (map (\<lambda>c. length (cell_lines_of c)) row)))"

definition normalize_example :: raw_table where
  "normalize_example =
     [[Some (''1 lb'' @ [LF] @ '' 2 lb''), Some (''10.00 '' @ [LF] @ ''20.00''), None],
      [],
      [Some ''Weight'', None]]"

definition postal_example :: postal_zone_map where
  "postal_example = [((''M5W'', ''M5Z''), ''DB''), ((''M5V'', ''M5V''), ''DA'')]"

definition matrix_example :: zone_matrix where
  "matrix_example = [(''DA'', ''DB'') \<mapsto> 5]"

text \<open>The row written for one item of the postal map.\<close>

definition zone_row_of :: "string \<Rightarrow> zone_matrix \<Rightarrow> (string \<times> string) \<times> string \<Rightarrow> zone_row" where
  "zone_row_of origin_zone zm item =
     \<lparr>country_name = ''Canada'', country_symbol = ''CA'',
      numerical_zone = (case zm (origin_zone, snd item) of Some z \<Rightarrow> z | None \<Rightarrow> 16),
      city = [], start_postal = fst (fst item), end_postal = snd (fst item)\<rparr>"

definition titled :: "string \<Rightarrow> page" where
  "titled title = \<lparr>extract_text = Some title, extract_tables = []\<rparr>"

definition overlap_example :: pdf where
  "overlap_example =
     [titled ''FedEx First Overnight Rates'', titled ''Zones 1-7'',
      titled ''FedEx Priority Overnight Rates'', titled ''Zones 8-16'',
      titled ''FedEx Priority Overnight Rates'', titled ''Zones 8-16'']"

definition covered_example :: string where
  "covered_example = ''M5V - M5Z DB'' @ [LF] @ ''M5V DA'' @ [LF] @ ''M4A DC''"

definition zero_matrix_example :: pdf where
  "zero_matrix_example =
     [\<lparr>extract_text = Some ''Intra-Canada Zone Index'',
       extract_tables =
         [[[Some ''Origin'', Some ''DA DB DC DD DE DF DG DH DI DJ DK DL DM DN DO DP DQ DR DS DT DU DV DW DX DY DZ''],
           [Some ''DA'', Some ''0 1 2 3 4 5 6 7 8 9 10 11 12 13 14 15 16 17 18 19 20 21 22 23 24 25'']]]\<rparr>]"

text \<open>The entry a parsed matrix holds for an origin and a destination, if any.\<close>

definition matrix_entry :: "error + zone_matrix \<Rightarrow> string \<Rightarrow> string \<Rightarrow> int option" where
  "matrix_entry res origin_zone dest_zone =
     (case res of Inl e \<Rightarrow> None | Inr zm \<Rightarrow> zm (origin_zone, dest_zone))"



section \<open>Invariants of the scans\<close>

definition zones_ok :: "int list \<Rightarrow> bool" where
  "zones_ok zones \<longleftrightarrow> (\<forall>z \<in> set zones. 1 \<le> z \<and> z \<le> 16)"

text \<open>
  The invariant of the scan: overage rates are keyed by zones 1 to 16, parsed prices by
  weights 1 to 99.
\<close>

definition flat_inv :: "flat_state \<Rightarrow> bool" where
  "flat_inv st \<longleftrightarrow> (\<forall>z r. fl_per_pound st z = Some r \<longrightarrow> 1 \<le> z \<and> z \<le> 16) \<and>
                  (\<forall>w m. fl_rates st w = Some m \<longrightarrow> 1 \<le> w \<and> w \<le> 99)"


text \<open>The value lines of a table: the lines of the second cell of its rows.\<close>

definition value_lines :: "raw_table \<Rightarrow> string set" where
  "value_lines table =
     {line. \<exists>row \<in> set table. 2 \<le> length row \<and>
              line \<in> set (split_lines (str_strip (cell_str (row ! 1))))}"

text \<open>
  The invariant of the matrix scan over the value lines \<open>T\<close> seen so far: an entry has
  catalog zone codes as its key and, as its value, the integer at the destination's
  catalog position in a line of \<open>T\<close> that holds as many integers as the catalog has codes.
\<close>

definition matrix_inv :: "string set \<Rightarrow> zone_matrix \<Rightarrow> bool" where
  "matrix_inv T zm \<longleftrightarrow>
     (\<forall>origin dest v. zm (origin, dest) = Some v \<longrightarrow>
        origin \<in> set ZONE_CODES \<and> dest \<in> set ZONE_CODES \<and>
        (\<exists>line \<in> T.
           length (ints_of_parts (str_split (str_strip line))) = length ZONE_CODES \<and>
           (\<exists>j < length ZONE_CODES.
              dest = ZONE_CODES ! j \<and> v = ints_of_parts (str_split (str_strip line)) ! j)))"

section \<open>Loops as closed forms\<close>

lemma foldl_invariant:
  "P s \<Longrightarrow> (\<And>s x. P s \<Longrightarrow> x \<in> set xs \<Longrightarrow> P (f s x)) \<Longrightarrow> P (foldl f s xs)"
  by (induction xs arbitrary: s) auto

lemma foldl_upd_all:
  "foldl (\<lambda>m k. m(k \<mapsto> g k)) m0 ks k = (if k \<in> set ks then Some (g k) else m0 k)"
  by (induction ks arbitrary: m0) auto

lemma foldl_upd_some:
  "foldl (\<lambda>m z. case p z of None \<Rightarrow> m | Some r \<Rightarrow> m(z \<mapsto> h z r)) m0 zs z =
     (if z \<in> set zs then (case p z of None \<Rightarrow> m0 z | Some r \<Rightarrow> Some (h z r)) else m0 z)"
  by (induction zs arbitrary: m0) (auto split: option.splits)

lemma foldl_upd_upto:
  "foldl (\<lambda>m k. m(k \<mapsto> g k)) m0 [a .. b] k = (if a \<le> k \<and> k \<le> b then Some (g k) else m0 k)"
  by (simp add: foldl_upd_all)

lemma foldl_upd_some_upto:
  "foldl (\<lambda>m z. case p z of None \<Rightarrow> m | Some r \<Rightarrow> m(z \<mapsto> h z r)) Map.empty [a .. b] z =
     (if a \<le> z \<and> z \<le> b then map_option (h z) (p z) else None)"
  by (simp add: foldl_upd_some split: option.splits)


section \<open>Zone headers hold zones 1 to 16 only\<close>

lemma zones_of_parts_range: "z \<in> set (zones_of_parts parts) \<Longrightarrow> 1 \<le> z \<and> z \<le> 16"
  by (induction parts) (auto split: option.splits if_splits)

lemma parse_zone_numbers_range: "z \<in> set (parse_zone_numbers s) \<Longrightarrow> 1 \<le> z \<and> z \<le> 16"
  unfolding parse_zone_numbers_def by (auto dest: zones_of_parts_range split: if_splits)

lemma zones_in_row_range: "z \<in> set (zones_in_row r) \<Longrightarrow> 1 \<le> z \<and> z \<le> 16"
  by (induction r rule: zones_in_row.induct) (auto dest: parse_zone_numbers_range split: if_splits)

lemma header_zones_range: "z \<in> set (header_zones rows) \<Longrightarrow> 1 \<le> z \<and> z \<le> 16"
  by (induction rows) (auto dest: zones_in_row_range split: if_splits)

lemma assign_other: "x \<notin> set zones \<Longrightarrow> assign zones rvs m x = m x"
  by (induction zones rvs m rule: assign.induct) auto

lemma assign_zones_ok:
  assumes "zones_ok zones" "\<forall>z r. m z = Some r \<longrightarrow> 1 \<le> z \<and> z \<le> 16"
  shows "\<forall>z r. assign zones rvs m z = Some r \<longrightarrow> 1 \<le> z \<and> z \<le> 16"
proof (intro allI impI)
  fix z r assume a: "assign zones rvs m z = Some r"
  show "1 \<le> z \<and> z \<le> 16"
  proof (cases "z \<in> set zones")
    case True then show ?thesis using assms(1) by (simp add: zones_ok_def)
  next
    case False
    then have "m z = Some r" using a by (simp add: assign_other)
    then show ?thesis using assms(2) by blast
  qed
qed

section \<open>The flat-rate builder\<close>

lemma overage_zones_apply:
  "overage_zones per_pound weight zone =
     (if 1 \<le> zone \<and> zone \<le> 16
      then map_option (\<lambda>r. quantize2 (of_int weight * r)) (per_pound zone) else None)"
  unfolding overage_zones_def by (simp only: foldl_upd_some_upto)

lemma overage_apply:
  "overage st weight =
     (if 100 \<le> weight \<and> weight \<le> 150 then Some (overage_zones (fl_per_pound st) weight)
      else fl_rates st weight)"
  unfolding overage_def by (simp only: foldl_upd_upto)

lemma flat_row_short: "length r < 2 \<Longrightarrow> flat_row D zones st r = st"
  by (cases r; cases "tl r") auto

lemma flat_row_inv:
  assumes "zones_ok zones" "flat_inv st"
  shows "flat_inv (flat_row D zones st r)"
proof (cases "length r < 2")
  case True
  then show ?thesis using assms by (simp add: flat_row_short)
next
  case False
  then obtain c0 c1 cells where r: "r = c0 # c1 # cells"
    by (cases r; cases "tl r") auto
  have pp: "\<forall>z r. fl_per_pound st z = Some r \<longrightarrow> 1 \<le> z \<and> z \<le> 16"
    using assms(2) by (simp add: flat_inv_def)
  have a: "\<forall>z r. assign zones rvs (fl_per_pound st) z = Some r \<longrightarrow> 1 \<le> z \<and> z \<le> 16" for rvs
    by (rule assign_zones_ok[OF assms(1) pp])
  show ?thesis
    using assms(2) a unfolding r flat_row.simps Let_def flat_inv_def
    by (simp split: option.splits)
qed

lemma flat_table_inv:
  assumes "flat_inv st"
  shows "flat_inv (flat_table D st raw)"
proof -
  have z: "zones_ok (header_zones rows)" for rows
    using header_zones_range by (auto simp: zones_ok_def)
  have "flat_inv (foldl (flat_row D (header_zones rows)) st table)" for rows table
    by (rule foldl_invariant[where P = flat_inv]) (simp_all add: assms flat_row_inv z)
  then show ?thesis
    unfolding flat_table_def Let_def using assms by simp
qed

lemma flat_page_inv: "flat_inv st \<Longrightarrow> flat_inv (flat_page D st pg)"
  unfolding flat_page_def
  by (rule foldl_invariant[where P = flat_inv]) (simp_all add: flat_table_inv)

lemma flat_scan_inv: "flat_inv (flat_scan D pages)"
  unfolding flat_scan_def
proof (rule foldl_invariant[where P = flat_inv])
  show "flat_inv \<lparr>fl_rates = Map.empty, fl_per_pound = Map.empty\<rparr>"
    by (simp add: flat_inv_def)
next
  fix s x assume "flat_inv s"
  then show "flat_inv (flat_page D s x)" by (rule flat_page_inv)
qed

lemma per_pound_none_outside:
  "\<not> (1 \<le> z \<and> z \<le> 16) \<Longrightarrow> fl_per_pound (flat_scan D pages) z = None"
  using flat_scan_inv[of D pages] unfolding flat_inv_def
  by (cases "fl_per_pound (flat_scan D pages) z") auto

lemma per_pound_empty_check:
  assumes "list_all (\<lambda>z. fl_per_pound (flat_scan D pages) z = None) [1 .. 16]"
  shows "fl_per_pound (flat_scan D pages) = Map.empty"
proof
  fix z
  show "fl_per_pound (flat_scan D pages) z = None"
  proof (cases "1 \<le> z \<and> z \<le> 16")
    case True
    then have "z \<in> set [1 .. 16]" by simp
    then show ?thesis using assms unfolding list_all_iff by blast
  next
    case False
    then show ?thesis by (rule per_pound_none_outside)
  qed
qed

text \<open>
  C10.  Whenever the flat-rate builder returns (the page span lies inside the document),
  its table has an entry for every weight from 100 to 150; when the scan captured no
  per-pound overage rate at all, that entry is the empty zone map.
\<close>

theorem flat_table_keeps_weights_100_to_150:
  assumes "span_pages pdf start_page end_page = Inr pages"
      and "100 \<le> weight" and "weight \<le> 150"
  shows "\<exists>table zones. parse_non_freight_rates D pdf start_page end_page = Inr table \<and>
           table weight = Some zones \<and>
           (fl_per_pound (flat_scan D pages) = Map.empty \<longrightarrow> zones = Map.empty)"
proof -
  let ?st = "flat_scan D pages"
  have 1: "parse_non_freight_rates D pdf start_page end_page = Inr (overage ?st)"
    using assms(1) by (simp add: parse_non_freight_rates_def)
  have 2: "overage ?st weight = Some (overage_zones (fl_per_pound ?st) weight)"
    using assms(2,3) by (simp add: overage_apply)
  have 3: "fl_per_pound ?st = Map.empty \<longrightarrow> overage_zones (fl_per_pound ?st) weight = Map.empty"
    by (auto simp: overage_zones_apply fun_eq_iff)
  show ?thesis using 1 2 3 by blast
qed

theorem flat_table_keeps_weights_100_to_150_witness:
  "span_pages no_overage_example 0 0 = Inr no_overage_example \<and>
   (100::int) \<le> 120 \<and> (120::int) \<le> 150 \<and>
   fl_per_pound (flat_scan plain_decimal no_overage_example) = Map.empty \<and>
   (\<exists>table zones. parse_non_freight_rates plain_decimal no_overage_example 0 0 = Inr table \<and>
      table 120 = Some zones \<and> zones = Map.empty)"
proof -
  have h: "span_pages no_overage_example 0 0 = Inr no_overage_example" by code_simp
  have e: "fl_per_pound (flat_scan plain_decimal no_overage_example) = Map.empty"
    by (rule per_pound_empty_check) code_simp
  show ?thesis
    using flat_table_keeps_weights_100_to_150[OF h, of 120 plain_decimal] h e by simp
qed




section \<open>The freight builder\<close>

lemma freight_row_short: "length r < 2 \<Longrightarrow> freight_row D (zones, st) r = (zones, st)"
  by (cases r; cases "tl r") auto











lemma freight_row_zones_fixed:
  "zones \<noteq> [] \<Longrightarrow> fst (freight_row D (zones, st) r) = zones"
  by (cases r; cases "tl r") (auto simp: Let_def split: option.splits)

lemma freight_row_writes:
  assumes "zones \<noteq> []" "writes_bracket D zones b (c0 # c1 # cells)"
  shows "fr_per_pound (snd (freight_row D (zones, st) (c0 # c1 # cells))) b =
           Some (assign zones (parse_rates_line D (cell_text c1)) (sub_map (fr_per_pound st) b))"
  using assms by (simp add: Let_def)

lemma freight_row_keeps:
  assumes "zones \<noteq> []" "\<not> writes_bracket D zones b r"
  shows "fr_per_pound (snd (freight_row D (zones, st) r)) b = fr_per_pound st b"
proof (cases "length r < 2")
  case True
  then show ?thesis by (simp add: freight_row_short)
next
  case False
  then obtain c0 c1 cells where r: "r = c0 # c1 # cells"
    by (cases r; cases "tl r") auto
  show ?thesis using assms unfolding r
    by (auto simp: Let_def split: option.splits)
qed

lemma freight_rows_keep:
  assumes "zones \<noteq> []" "\<forall>r \<in> set rows. \<not> writes_bracket D zones b r"
  shows "fr_per_pound (snd (foldl (freight_row D) (zones, st) rows)) b = fr_per_pound st b"
  using assms(2)
proof (induction rows arbitrary: st)
  case Nil
  then show ?case by simp
next
  case (Cons r rows)
  obtain st' where s: "freight_row D (zones, st) r = (zones, st')"
    using freight_row_zones_fixed[OF assms(1), of D st r]
    by (cases "freight_row D (zones, st) r") auto
  have k: "fr_per_pound st' b = fr_per_pound st b"
    using freight_row_keeps[OF assms(1), of D b r st] Cons.prems s by simp
  show ?case using Cons.IH[of st'] Cons.prems s k by simp
qed

lemma freight_rows_zones_fixed:
  "zones \<noteq> [] \<Longrightarrow> fst (foldl (freight_row D) (zones, st) rows) = zones"
proof (induction rows arbitrary: st)
  case Nil
  then show ?case by simp
next
  case (Cons r rows)
  obtain st' where s: "freight_row D (zones, st) r = (zones, st')"
    using freight_row_zones_fixed[OF Cons.prems, of D st r]
    by (cases "freight_row D (zones, st) r") auto
  show ?case using Cons.IH[OF Cons.prems, of st'] s by simp
qed

lemma assign_nth:
  "length rvs = length zones \<Longrightarrow> i < length zones \<Longrightarrow>
   zones ! i \<notin> set (drop (Suc i) zones) \<Longrightarrow> assign zones rvs m (zones ! i) = Some (rvs ! i)"
proof (induction zones rvs m arbitrary: i rule: assign.induct)
  case (1 zone zones rate rate_values m)
  show ?case
  proof (cases i)
    case 0
    then show ?thesis using 1 by (simp add: assign_other)
  next
    case (Suc j)
    have "assign zones rate_values (m(zone \<mapsto> rate)) (zones ! j) = Some (rate_values ! j)"
      using "1.prems" Suc by (intro "1.IH") auto
    then show ?thesis using Suc by simp
  qed
qed auto

text \<open>
  C3, as the code has it: the last matching row wins.  Once the zone header of a page is
  set, take any row that records per-pound rates for a bracket (its label holds the
  bracket phrase and not "minimum", and it has as many rates as the header has zones),
  followed only by rows that record nothing for that bracket.  Whatever earlier rows
  recorded, the rate then recorded for the bracket and the zone at header position \<open>i\<close> is
  this row's \<open>i\<close>-th rate (for a zone the header names twice, its last position counts).
\<close>

theorem last_bracket_row_wins:
  assumes "zones \<noteq> []"
      and "writes_bracket D zones b (c0 # c1 # cells)"
      and "\<forall>r \<in> set later. \<not> writes_bracket D zones b r"
      and "i < length zones" and "zones ! i \<notin> set (drop (Suc i) zones)"
  shows "sub_map (fr_per_pound (snd (foldl (freight_row D) (zones, st)
                                      (earlier @ (c0 # c1 # cells) # later)))) b (zones ! i)
           = Some (parse_rates_line D (cell_text c1) ! i)"
proof -
  obtain st1 where s1: "foldl (freight_row D) (zones, st) earlier = (zones, st1)"
    using freight_rows_zones_fixed[OF assms(1), of D st earlier]
    by (cases "foldl (freight_row D) (zones, st) earlier") auto
  obtain st2 where s2: "freight_row D (zones, st1) (c0 # c1 # cells) = (zones, st2)"
    using freight_row_zones_fixed[OF assms(1), of D st1 "c0 # c1 # cells"]
    by (cases "freight_row D (zones, st1) (c0 # c1 # cells)") auto
  have w: "fr_per_pound st2 b =
             Some (assign zones (parse_rates_line D (cell_text c1)) (sub_map (fr_per_pound st1) b))"
    using freight_row_writes[OF assms(1,2), of st1] s2 by simp
  have len: "length (parse_rates_line D (cell_text c1)) = length zones"
    using assms(2) by simp
  have k: "fr_per_pound (snd (foldl (freight_row D) (zones, st2) later)) b = fr_per_pound st2 b"
    by (rule freight_rows_keep[OF assms(1,3)])
  have "foldl (freight_row D) (zones, st) (earlier @ (c0 # c1 # cells) # later) =
          foldl (freight_row D) (zones, st2) later"
    using s1 s2 by simp
  then show ?thesis
    using k w assign_nth[OF len assms(4,5)] by (simp add: sub_map_def)
qed

text \<open>
  C3 as stated fails: in \<open>dup_example\<close> two rows carry the phrase "151 to 299", the first
  with rate 0.50 and the second with rate 0.60 for every zone; the rate recorded for
  zone 1 is 0.60, the later row's, not the first row's 0.50.
\<close>

theorem first_bracket_row_is_overwritten:
  "sub_map (fr_per_pound (freight_scan plain_decimal dup_example)) (151, 299) 1 = Some (3 / 5)"
  by code_simp

theorem last_bracket_row_wins_witness:
  "[1, 2, 3, 4, 5, 6, 7] \<noteq> ([] :: int list) \<and>
   writes_bracket plain_decimal [1, 2, 3, 4, 5, 6, 7] (151, 299)
     [Some ''151 to 299 lbs'', Some ''0.60 0.60 0.60 0.60 0.60 0.60 0.60''] \<and>
   sub_map (fr_per_pound (snd (foldl (freight_row plain_decimal)
       ([1, 2, 3, 4, 5, 6, 7], \<lparr>fr_per_pound = Map.empty, fr_minimum = Map.empty\<rparr>)
       [[Some ''151 to 299 lbs'', Some ''0.50 0.50 0.50 0.50 0.50 0.50 0.50''],
        [Some ''151 to 299 lbs'', Some ''0.60 0.60 0.60 0.60 0.60 0.60 0.60'']]))) (151, 299) 1
     = Some (3 / 5)"
proof -
  let ?zones = "[1, 2, 3, 4, 5, 6, 7] :: int list"
  let ?c1 = "Some ''0.60 0.60 0.60 0.60 0.60 0.60 0.60''"
  have z: "?zones \<noteq> []" by simp
  have w: "writes_bracket plain_decimal ?zones (151, 299) [Some ''151 to 299 lbs'', ?c1]"
    by code_simp
  have l: "\<forall>r \<in> set ([] :: row list). \<not> writes_bracket plain_decimal ?zones (151, 299) r"
    by simp
  have i: "(0::nat) < length ?zones" "?zones ! 0 \<notin> set (drop (Suc 0) ?zones)" by simp_all
  have v: "parse_rates_line plain_decimal (cell_text ?c1) ! 0 = 3 / 5" by code_simp
  show ?thesis
    using last_bracket_row_wins[OF z w l i,
        of "\<lparr>fr_per_pound = Map.empty, fr_minimum = Map.empty\<rparr>"
           "[[Some ''151 to 299 lbs'', Some ''0.50 0.50 0.50 0.50 0.50 0.50 0.50'']]"]
      z w v by simp
qed

section \<open>Table normalisation: shape of the result\<close>

lemma split_on_nonempty: "split_on sep s \<noteq> []"
  by (induction s) (auto split: list.splits)

lemma cell_lines_of_pos: "1 \<le> length (cell_lines_of c)"
  by (cases c) (auto simp: split_lines_def split_on_nonempty Suc_le_eq)

lemma Max_insert_insert:
  "finite S \<Longrightarrow> Max (insert a (insert b S)) = Max (insert (max a b) (S :: nat set))"
  by (cases "S = {}") (auto simp: max.assoc)

lemma scan_cells_eq:
  "1 \<le> ml \<Longrightarrow>
   scan_cells row cl ml =
     (cl @ map cell_lines_of row, Max (insert ml (set (map (\<lambda>c. length (cell_lines_of c)) row))))"
proof (induction row cl ml rule: scan_cells.induct)
  case (1 cell_lines max_lines)
  then show ?case by simp
next
  case (2 cells cell_lines max_lines)
  have "Max (insert max_lines (insert (Suc 0) (set (map (\<lambda>c. length (cell_lines_of c)) cells))))
        = Max (insert (max max_lines (Suc 0)) (set (map (\<lambda>c. length (cell_lines_of c)) cells)))"
    by (rule Max_insert_insert) simp
  then show ?case using 2 by (simp add: max_def)
next
  case (3 s cells cell_lines max_lines)
  have "Max (insert max_lines (insert (length (split_lines s))
              (set (map (\<lambda>c. length (cell_lines_of c)) cells))))
        = Max (insert (max max_lines (length (split_lines s)))
              (set (map (\<lambda>c. length (cell_lines_of c)) cells)))"
    by (rule Max_insert_insert) simp
  then show ?case using 3 by simp
qed

lemma normalize_row_eq:
  "normalize_row row =
     (if max_lines_of row = 1 then [row]
      else map (new_row (map cell_lines_of row)) [0 ..< max_lines_of row])"
  unfolding normalize_row_def max_lines_of_def
  by (simp add: scan_cells_eq)

lemma normalize_from_eq:
  "normalize_from table raw = table @ concat (map normalize_row (filter (\<lambda>row. row \<noteq> []) raw))"
  by (induction raw arbitrary: table) auto

text \<open>
  C4, as the code has it.  Normalisation drops the empty rows of the raw table and
  replaces every other row, in order, by its sub-rows from top to bottom.  A row yields
  exactly \<open>L\<close> rows, \<open>L\<close> being the greatest number of embedded lines among its cells and
  at least 1.  When \<open>L = 1\<close> the row is passed on as it is (an absent cell stays
  absent); when \<open>L > 1\<close> output row \<open>i\<close> holds, in each column, that cell's \<open>i\<close>-th line
  with the white space around it removed when the cell has such a line, and the empty
  string otherwise.  Every output row is as wide as its input row.
\<close>

theorem normalize_table_shape:
  "normalize_table raw = concat (map normalize_row (filter (\<lambda>row. row \<noteq> []) raw)) \<and>
   length (normalize_row row) = max_lines_of row \<and>
   (\<forall>i < max_lines_of row.
      length (normalize_row row ! i) = length row \<and>
      (\<forall>j < length row.
         normalize_row row ! i ! j =
           (if max_lines_of row = 1 then row ! j
            else if i < length (cell_lines_of (row ! j))
                 then Some (str_strip (cell_lines_of (row ! j) ! i))
                 else Some [])))"
proof -
  have 1: "normalize_table raw = concat (map normalize_row (filter (\<lambda>row. row \<noteq> []) raw))"
    by (simp add: normalize_table_def normalize_from_eq)
  have 2: "length (normalize_row row) = max_lines_of row"
    by (simp add: normalize_row_eq)
  have 3: "length (normalize_row row ! i) = length row" if "i < max_lines_of row" for i
    using that by (auto simp: normalize_row_eq new_row_def)
  have 4: "normalize_row row ! i ! j =
           (if max_lines_of row = 1 then row ! j
            else if i < length (cell_lines_of (row ! j))
                 then Some (str_strip (cell_lines_of (row ! j) ! i))
                 else Some [])" if "i < max_lines_of row" "j < length row" for i j
    using that by (auto simp: normalize_row_eq new_row_def)
  show ?thesis using 1 2 3 4 by blast
qed

theorem normalize_table_shape_witness:
  "normalize_table normalize_example =
     [[Some ''1 lb'', Some ''10.00'', Some []], [Some ''2 lb'', Some ''20.00'', Some []],
      [Some ''Weight'', None]] \<and>
   (1::nat) < 2 \<and> (0::nat) < 3 \<and>
   normalize_row [Some (''1 lb'' @ [LF] @ '' 2 lb''), Some (''10.00 '' @ [LF] @ ''20.00''), None]
     ! 1 ! 0 = Some ''2 lb''"
proof -
  let ?row = "[Some (''1 lb'' @ [LF] @ '' 2 lb''), Some (''10.00 '' @ [LF] @ ''20.00''), None]"
  have t: "normalize_table normalize_example =
     [[Some ''1 lb'', Some ''10.00'', Some []], [Some ''2 lb'', Some ''20.00'', Some []],
      [Some ''Weight'', None]]"
    by code_simp
  have m: "max_lines_of ?row = 2"
    unfolding max_lines_of_def by (simp add: split_lines_def LF_def)
  have c: "cell_lines_of (?row ! 0) = [''1 lb'', '' 2 lb'']"
    by (simp add: split_lines_def LF_def)
  have s: "str_strip '' 2 lb'' = ''2 lb''" by code_simp
  from normalize_table_shape[of normalize_example ?row]
  have "\<forall>i < max_lines_of ?row.
      length (normalize_row ?row ! i) = length ?row \<and>
      (\<forall>j < length ?row.
         normalize_row ?row ! i ! j =
           (if max_lines_of ?row = 1 then ?row ! j
            else if i < length (cell_lines_of (?row ! j))
                 then Some (str_strip (cell_lines_of (?row ! j) ! i))
                 else Some []))"
    by blast
  then have "\<forall>j < length ?row.
         normalize_row ?row ! 1 ! j =
           (if max_lines_of ?row = 1 then ?row ! j
            else if 1 < length (cell_lines_of (?row ! j))
                 then Some (str_strip (cell_lines_of (?row ! j) ! 1))
                 else Some [])"
    unfolding m by simp
  then have "normalize_row ?row ! 1 ! 0 =
           (if max_lines_of ?row = 1 then ?row ! 0
            else if 1 < length (cell_lines_of (?row ! 0))
                 then Some (str_strip (cell_lines_of (?row ! 0) ! 1))
                 else Some [])"
    by simp
  then have "normalize_row ?row ! 1 ! 0 = Some ''2 lb''"
    unfolding m c using s by simp
  then show ?thesis using t by simp
qed

text \<open>
  C4 as stated fails: the cell "a " over "b" yields "a" in output row 0, not its
  line 0, which is "a " with the trailing blank.
\<close>

theorem normalize_strips_lines:
  "normalize_table [[Some (''a '' @ [LF] @ ''b'')]] ! 0 ! 0 = Some ''a'' \<and>
   split_lines (''a '' @ [LF] @ ''b'') ! 0 = ''a ''"
  by code_simp

section \<open>The zone resolver\<close>

lemma zone_rows_eq:
  "zone_rows origin_zone zm acc items = acc @ map (zone_row_of origin_zone zm) items"
  by (induction items arbitrary: acc) (auto simp: zone_row_of_def)

lemma sorted_map_fst:
  "sorted (xs :: (('a::linorder) \<times> ('b::linorder)) list) \<Longrightarrow> sorted (map fst xs)"
  by (induction xs) (auto simp: less_eq_prod_def)

text \<open>
  C5.  When the origin postal code resolves to a zone code, \<open>generate_zones_data\<close>
  returns one row per range of the postal map (the ranges of the rows are those of the
  map, each as often), in ascending order of the range; the row at position \<open>i\<close> is the
  one of the \<open>i\<close>-th item of the sorted map, and its numeric zone is the matrix entry for
  (origin zone, destination zone) when there is one and 16 when there is none.
\<close>

theorem zone_rows_for_resolved_origin:
  assumes "get_zone_code_for_postal origin_postal pzm = Some origin_zone"
  shows "length (generate_zones_data origin_postal pzm zm) = length pzm \<and>
     sorted (map (\<lambda>r. (start_postal r, end_postal r)) (generate_zones_data origin_postal pzm zm)) \<and>
     mset (map (\<lambda>r. (start_postal r, end_postal r)) (generate_zones_data origin_postal pzm zm))
       = mset (map fst pzm) \<and>
     (\<forall>i < length pzm.
        start_postal (generate_zones_data origin_postal pzm zm ! i) = fst (fst (sort pzm ! i)) \<and>
        end_postal (generate_zones_data origin_postal pzm zm ! i) = snd (fst (sort pzm ! i)) \<and>
        numerical_zone (generate_zones_data origin_postal pzm zm ! i) =
          (case zm (origin_zone, snd (sort pzm ! i)) of Some z \<Rightarrow> z | None \<Rightarrow> 16))"
proof -
  have g: "generate_zones_data origin_postal pzm zm = map (zone_row_of origin_zone zm) (sort pzm)"
    using assms by (simp add: generate_zones_data_def zone_rows_eq)
  have r: "map (\<lambda>r. (start_postal r, end_postal r)) (map (zone_row_of origin_zone zm) xs)
             = map fst xs" for xs
    by (simp add: zone_row_of_def)
  have 1: "length (generate_zones_data origin_postal pzm zm) = length pzm"
    by (simp add: g)
  have 2: "sorted (map (\<lambda>r. (start_postal r, end_postal r)) (generate_zones_data origin_postal pzm zm))"
    unfolding g r by (rule sorted_map_fst) simp
  have "mset (map fst (sort pzm)) = mset (map fst pzm)"
    by simp
  then have 3: "mset (map (\<lambda>r. (start_postal r, end_postal r)) (generate_zones_data origin_postal pzm zm))
       = mset (map fst pzm)"
    unfolding g r .
  have 4: "\<forall>i < length pzm.
        start_postal (generate_zones_data origin_postal pzm zm ! i) = fst (fst (sort pzm ! i)) \<and>
        end_postal (generate_zones_data origin_postal pzm zm ! i) = snd (fst (sort pzm ! i)) \<and>
        numerical_zone (generate_zones_data origin_postal pzm zm ! i) =
          (case zm (origin_zone, snd (sort pzm ! i)) of Some z \<Rightarrow> z | None \<Rightarrow> 16)"
    by (simp add: g zone_row_of_def)
  show ?thesis using 1 2 3 4 by blast
qed

theorem zone_rows_for_resolved_origin_witness:
  "get_zone_code_for_postal ''m5v1a1'' postal_example = Some ''DA'' \<and>
   (1::nat) < length postal_example \<and>
   start_postal (generate_zones_data ''m5v1a1'' postal_example matrix_example ! 0) = ''M5V'' \<and>
   numerical_zone (generate_zones_data ''m5v1a1'' postal_example matrix_example ! 0) = 16 \<and>
   start_postal (generate_zones_data ''m5v1a1'' postal_example matrix_example ! 1) = ''M5W'' \<and>
   numerical_zone (generate_zones_data ''m5v1a1'' postal_example matrix_example ! 1) = 5"
proof -
  have h: "get_zone_code_for_postal ''m5v1a1'' postal_example = Some ''DA''" by code_simp
  have s: "sort postal_example = [((''M5V'', ''M5V''), ''DA''), ((''M5W'', ''M5Z''), ''DB'')]"
    by code_simp
  have l: "length postal_example = 2" by (simp add: postal_example_def)
  from zone_rows_for_resolved_origin[OF h, of matrix_example]
  have "\<forall>i < length postal_example.
        start_postal (generate_zones_data ''m5v1a1'' postal_example matrix_example ! i)
          = fst (fst (sort postal_example ! i)) \<and>
        end_postal (generate_zones_data ''m5v1a1'' postal_example matrix_example ! i)
          = snd (fst (sort postal_example ! i)) \<and>
        numerical_zone (generate_zones_data ''m5v1a1'' postal_example matrix_example ! i) =
          (case matrix_example (''DA'', snd (sort postal_example ! i)) of
             Some z \<Rightarrow> z | None \<Rightarrow> 16)"
    by blast
  then show ?thesis
    unfolding s l using h by (simp add: matrix_example_def)
qed

section \<open>Service detection\<close>

lemma find_start_Some:
  "find_start sv t pgs i = Some k \<Longrightarrow>
   \<exists>m < length pgs. k = i + int m \<and> title_found t (pgs ! m) \<and> \<not> already_assigned sv (i + int m) \<and>
     (\<forall>m' < m. \<not> (title_found t (pgs ! m') \<and> \<not> already_assigned sv (i + int m')))"
proof (induction pgs arbitrary: i)
  case Nil
  then show ?case by simp
next
  case (Cons pg pgs)
  show ?case
  proof (cases "title_found t pg \<and> \<not> already_assigned sv i")
    case True
    then have "k = i" using Cons.prems by simp
    then show ?thesis using True by (intro exI[of _ 0]) simp
  next
    case False
    then have "find_start sv t pgs (i + 1) = Some k" using Cons.prems by auto
    from Cons.IH[OF this] obtain m where m: "m < length pgs" "k = i + 1 + int m"
      "title_found t (pgs ! m)" "\<not> already_assigned sv (i + 1 + int m)"
      "\<forall>m' < m. \<not> (title_found t (pgs ! m') \<and> \<not> already_assigned sv (i + 1 + int m'))"
      by blast
    have "\<forall>m' < Suc m. \<not> (title_found t ((pg # pgs) ! m') \<and> \<not> already_assigned sv (i + int m'))"
    proof (intro allI impI)
      fix m' assume "m' < Suc m"
      show "\<not> (title_found t ((pg # pgs) ! m') \<and> \<not> already_assigned sv (i + int m'))"
      proof (cases m')
        case 0
        then show ?thesis using False by simp
      next
        case (Suc n)
        then have "n < m" using \<open>m' < Suc m\<close> by simp
        then show ?thesis using m(5) Suc by (simp add: add.assoc)
      qed
    qed
    then show ?thesis using m by (intro exI[of _ "Suc m"]) (simp add: add.assoc)
  qed
qed

lemma find_start_None:
  "find_start sv t pgs i = None \<Longrightarrow>
   \<forall>m < length pgs. \<not> (title_found t (pgs ! m) \<and> \<not> already_assigned sv (i + int m))"
proof (induction pgs arbitrary: i)
  case Nil
  then show ?case by simp
next
  case (Cons pg pgs)
  then have f: "\<not> (title_found t pg \<and> \<not> already_assigned sv i)"
    and r: "find_start sv t pgs (i + 1) = None"
    by (auto split: if_splits)
  show ?case
  proof (intro allI impI)
    fix m assume "m < length (pg # pgs)"
    show "\<not> (title_found t ((pg # pgs) ! m) \<and> \<not> already_assigned sv (i + int m))"
    proof (cases m)
      case 0
      then show ?thesis using f by simp
    next
      case (Suc n)
      then have "n < length pgs" using \<open>m < length (pg # pgs)\<close> by simp
      then show ?thesis using Cons.IH[OF r] Suc by (simp add: add.assoc)
    qed
  qed
qed

lemma find_start_first:
  assumes "k < length pgs" "title_found t (pgs ! k)" "\<not> already_assigned sv (int k)"
      and "\<forall>j < k. \<not> (title_found t (pgs ! j) \<and> \<not> already_assigned sv (int j))"
  shows "find_start sv t pgs 0 = Some (int k)"
proof (cases "find_start sv t pgs 0")
  case None
  from find_start_None[OF this] assms(1,2,3) show ?thesis by auto
next
  case (Some k')
  from find_start_Some[OF this] obtain m where m: "m < length pgs" "k' = int m"
    "title_found t (pgs ! m)" "\<not> already_assigned sv (int m)"
    "\<forall>m' < m. \<not> (title_found t (pgs ! m') \<and> \<not> already_assigned sv (int m'))"
    by auto
  have "\<not> m < k" using assms(4) m(3,4) by blast
  moreover have "\<not> k < m" using m(5) assms(2,3) by blast
  ultimately have "m = k" by simp
  then show ?thesis using Some m(2) by simp
qed

lemma find_start_none:
  assumes "\<forall>k < length pgs. \<not> (title_found t (pgs ! k) \<and> \<not> already_assigned sv (int k))"
  shows "find_start sv t pgs 0 = None"
proof (cases "find_start sv t pgs 0")
  case None
  then show ?thesis .
next
  case (Some k')
  from find_start_Some[OF this] assms show ?thesis by auto
qed

lemma detect_steps_extend: "\<exists>rest. foldl (detect_step pdf) acc ds = acc @ rest"
proof (induction ds arbitrary: acc)
  case Nil
  then show ?case by simp
next
  case (Cons d ds)
  obtain r1 where r1: "detect_step pdf acc d = acc @ r1"
    by (cases "find_start acc (sd_search d) pdf 0") (auto simp: detect_step_def)
  from Cons.IH[of "detect_step pdf acc d"] obtain r2
    where "foldl (detect_step pdf) (detect_step pdf acc d) ds = detect_step pdf acc d @ r2"
    by blast
  then show ?case using r1 by simp
qed

lemma already_assigned_iff:
  "already_assigned services i \<longleftrightarrow>
     (\<exists>s \<in> set services. fst (sv_pages s) \<le> i \<and> i \<le> snd (sv_pages s))"
  by (simp add: already_assigned_def list_ex_iff)

text \<open>
  C7.  Take any entry \<open>d\<close> of the catalog, the entries \<open>before\<close> it and the services
  detected for them.  A page qualifies for \<open>d\<close> when one of its first five text lines
  holds both the detection phrase of \<open>d\<close> and the word "Rates", and the page lies in no
  span \<open>[start, end]\<close> of a service detected for an earlier entry.  If \<open>k\<close> is the first
  qualifying page, detection adds the service of \<open>d\<close> with the span
  \<open>[k, k + page_count - 1]\<close>; if no page qualifies, \<open>d\<close> adds nothing.  The entries after
  \<open>d\<close> only append to the list: they never change what was assigned before.
\<close>

theorem detection_in_catalog_order:
  assumes "SERVICE_DEFINITIONS = before @ d # after"
  shows "(\<forall>k < length pdf.
            title_found (sd_search d) (pdf ! k) \<and>
            \<not> (\<exists>s \<in> set (detect_with before pdf). fst (sv_pages s) \<le> int k \<and> int k \<le> snd (sv_pages s)) \<and>
            (\<forall>j < k. \<not> (title_found (sd_search d) (pdf ! j) \<and>
                \<not> (\<exists>s \<in> set (detect_with before pdf).
                       fst (sv_pages s) \<le> int j \<and> int j \<le> snd (sv_pages s)))) \<longrightarrow>
            detect_with (before @ [d]) pdf =
              detect_with before pdf @
                [\<lparr>sv_name = sd_name d, sv_pages = (int k, int k + sd_page_count d - 1),
                  sv_is_freight = sd_is_freight d\<rparr>]) \<and>
         ((\<forall>k < length pdf.
             \<not> (title_found (sd_search d) (pdf ! k) \<and>
                \<not> (\<exists>s \<in> set (detect_with before pdf).
                       fst (sv_pages s) \<le> int k \<and> int k \<le> snd (sv_pages s)))) \<longrightarrow>
            detect_with (before @ [d]) pdf = detect_with before pdf) \<and>
         (\<exists>rest. detect_service_pages pdf = detect_with (before @ [d]) pdf @ rest)"
proof -
  let ?earlier = "detect_with before pdf"
  have step: "detect_with (before @ [d]) pdf = detect_step pdf ?earlier d"
    by (simp add: detect_with_def)
  have A: "detect_with (before @ [d]) pdf =
              ?earlier @ [\<lparr>sv_name = sd_name d, sv_pages = (int k, int k + sd_page_count d - 1),
                           sv_is_freight = sd_is_freight d\<rparr>]"
    if "k < length pdf" "title_found (sd_search d) (pdf ! k)"
       "\<not> already_assigned ?earlier (int k)"
       "\<forall>j < k. \<not> (title_found (sd_search d) (pdf ! j) \<and> \<not> already_assigned ?earlier (int j))"
    for k
    using find_start_first[OF that] by (simp add: step detect_step_def)
  have B: "detect_with (before @ [d]) pdf = ?earlier"
    if "\<forall>k < length pdf. \<not> (title_found (sd_search d) (pdf ! k) \<and> \<not> already_assigned ?earlier (int k))"
    using find_start_none[OF that] by (simp add: step detect_step_def)
  have "detect_service_pages pdf = foldl (detect_step pdf) (detect_with (before @ [d]) pdf) after"
    unfolding detect_service_pages_def assms detect_with_def by simp
  then have C: "\<exists>rest. detect_service_pages pdf = detect_with (before @ [d]) pdf @ rest"
    using detect_steps_extend[of pdf "detect_with (before @ [d]) pdf" after] by simp
  show ?thesis
    using A B C unfolding already_assigned_iff by blast
qed

theorem detection_in_catalog_order_witness:
  "SERVICE_DEFINITIONS = take 1 SERVICE_DEFINITIONS @ (SERVICE_DEFINITIONS ! 1) # drop 2 SERVICE_DEFINITIONS \<and>
   title_found (sd_search (SERVICE_DEFINITIONS ! 1)) (overlap_example ! 2) \<and>
   detect_with (take 1 SERVICE_DEFINITIONS) overlap_example =
     [\<lparr>sv_name = ''FedEx First Overnight'', sv_pages = (0, 3), sv_is_freight = False\<rparr>] \<and>
   detect_with (take 1 SERVICE_DEFINITIONS @ [SERVICE_DEFINITIONS ! 1]) overlap_example =
     [\<lparr>sv_name = ''FedEx First Overnight'', sv_pages = (0, 3), sv_is_freight = False\<rparr>,
      \<lparr>sv_name = ''FedEx Priority Overnight'', sv_pages = (4, 7), sv_is_freight = False\<rparr>] \<and>
   (\<exists>rest. detect_service_pages overlap_example =
      detect_with (take 1 SERVICE_DEFINITIONS @ [SERVICE_DEFINITIONS ! 1]) overlap_example @ rest)"
proof -
  let ?d = "SERVICE_DEFINITIONS ! 1"
  let ?before = "take 1 SERVICE_DEFINITIONS"
  have cat: "SERVICE_DEFINITIONS = ?before @ ?d # drop 2 SERVICE_DEFINITIONS"
    by (simp add: SERVICE_DEFINITIONS_def)
  have e: "detect_with ?before overlap_example =
     [\<lparr>sv_name = ''FedEx First Overnight'', sv_pages = (0, 3), sv_is_freight = False\<rparr>]"
    by code_simp
  have d: "sd_name ?d = ''FedEx Priority Overnight''" "sd_page_count ?d = 4"
    "sd_is_freight ?d = False"
    by (simp_all add: SERVICE_DEFINITIONS_def)
  have t2: "title_found (sd_search ?d) (overlap_example ! 2)" by code_simp
  have t4: "title_found (sd_search ?d) (overlap_example ! 4)" by code_simp
  have l: "(4::nat) < length overlap_example" by (simp add: overlap_example_def)
  have early: "\<forall>j < (4::nat). \<not> (title_found (sd_search ?d) (overlap_example ! j) \<and>
                \<not> (\<exists>s \<in> set (detect_with ?before overlap_example).
                       fst (sv_pages s) \<le> int j \<and> int j \<le> snd (sv_pages s)))"
    unfolding e by simp
  have free: "\<not> (\<exists>s \<in> set (detect_with ?before overlap_example).
                  fst (sv_pages s) \<le> int 4 \<and> int 4 \<le> snd (sv_pages s))"
    unfolding e by simp
  from detection_in_catalog_order[OF cat, of overlap_example]
  have A: "\<forall>k < length overlap_example.
            title_found (sd_search ?d) (overlap_example ! k) \<and>
            \<not> (\<exists>s \<in> set (detect_with ?before overlap_example).
                   fst (sv_pages s) \<le> int k \<and> int k \<le> snd (sv_pages s)) \<and>
            (\<forall>j < k. \<not> (title_found (sd_search ?d) (overlap_example ! j) \<and>
                \<not> (\<exists>s \<in> set (detect_with ?before overlap_example).
                       fst (sv_pages s) \<le> int j \<and> int j \<le> snd (sv_pages s)))) \<longrightarrow>
            detect_with (?before @ [?d]) overlap_example =
              detect_with ?before overlap_example @
                [\<lparr>sv_name = sd_name ?d, sv_pages = (int k, int k + sd_page_count ?d - 1),
                  sv_is_freight = sd_is_freight ?d\<rparr>]"
    and C: "\<exists>rest. detect_service_pages overlap_example =
              detect_with (?before @ [?d]) overlap_example @ rest"
    by blast+
  from A l t4 free early
  have "detect_with (?before @ [?d]) overlap_example =
              detect_with ?before overlap_example @
                [\<lparr>sv_name = sd_name ?d, sv_pages = (int 4, int 4 + sd_page_count ?d - 1),
                  sv_is_freight = sd_is_freight ?d\<rparr>]"
    by blast
  then have r: "detect_with (?before @ [?d]) overlap_example =
     [\<lparr>sv_name = ''FedEx First Overnight'', sv_pages = (0, 3), sv_is_freight = False\<rparr>,
      \<lparr>sv_name = ''FedEx Priority Overnight'', sv_pages = (4, 7), sv_is_freight = False\<rparr>]"
    unfolding e d by simp
  show ?thesis using cat t2 e r C by blast
qed

section \<open>The postal map: token scan after the regular expression\<close>

lemma dict_set_keeps:
  "(k', v') \<in> set m \<Longrightarrow> k \<noteq> k' \<Longrightarrow> (k', v') \<in> set (dict_set k v m)"
  by (induction m) auto

lemma map_of_dict_set_other:
  "k \<noteq> k' \<Longrightarrow> map_of (dict_set k v m) k' = map_of m k'"
  by (induction m) auto

lemma covered_by_range:
  "((s, e), z) \<in> set m \<Longrightarrow> s \<noteq> e \<Longrightarrow> already_covered s m"
  unfolding already_covered_def list_ex_iff by (intro bexI[of _ "((s, e), z)"]) auto

lemma scan_parts_keeps:
  assumes "s \<noteq> e"
  shows "((s, e), z) \<in> set m \<Longrightarrow>
         ((s, e), z) \<in> set (scan_parts parts i m) \<and>
         map_of (scan_parts parts i m) (s, s) = map_of m (s, s)"
proof (induction parts i m rule: scan_parts.induct)
  case (1 parts i m)
  note mem = "1.prems"
  show ?case
  proof (cases "i < length parts")
    case False
    then show ?thesis using mem by (subst (1 2) scan_parts.simps) simp
  next
    case in_range: True
    show ?thesis
    proof (cases "is_fsa (parts ! i) \<and> i + 1 < length parts \<and> is_zone_code (parts ! (i + 1))")
      case False
      then have "scan_parts parts i m = scan_parts parts (i + 1) m"
        using in_range by (subst scan_parts.simps) auto
      then show ?thesis using "1.IH"(4)[OF in_range False mem] by simp
    next
      case pair: True
      show ?thesis
      proof (cases "0 < i \<and> parts ! (i - 1) \<in> set [em_dash, en_dash, ''-'']")
        case True
        then have "scan_parts parts i m = scan_parts parts (i + 2) m"
          using in_range pair by (subst scan_parts.simps) auto
        then show ?thesis using "1.IH"(1)[OF in_range pair True mem] by simp
      next
        case nodash: False
        show ?thesis
        proof (cases "already_covered (parts ! i) m")
          case True
          then have "scan_parts parts i m = scan_parts parts (i + 1) m"
            using in_range pair nodash by (subst scan_parts.simps) auto
          then show ?thesis using "1.IH"(2)[OF in_range pair nodash True mem] by simp
        next
          case free: False
          let ?m' = "dict_set (parts ! i, parts ! i) (parts ! (i + 1)) m"
          have ne: "parts ! i \<noteq> s" using free covered_by_range[OF mem assms] by auto
          have mem': "((s, e), z) \<in> set ?m'"
            using dict_set_keeps[OF mem] assms by auto
          have same: "map_of ?m' (s, s) = map_of m (s, s)"
            using ne by (simp add: map_of_dict_set_other)
          have "scan_parts parts i m = scan_parts parts (i + 1) ?m'"
            using in_range pair nodash free by (subst scan_parts.simps) auto
          then show ?thesis using "1.IH"(3)[OF in_range pair nodash free mem'] same by simp
        qed
      qed
    qed
  qed
qed

lemma token_lines_keep:
  assumes "s \<noteq> e"
  shows "((s, e), z) \<in> set m \<Longrightarrow>
         ((s, e), z) \<in> set (foldl scan_line m lines) \<and>
         map_of (foldl scan_line m lines) (s, s) = map_of m (s, s)"
proof (induction lines arbitrary: m)
  case Nil
  then show ?case by simp
next
  case (Cons line lines)
  have step: "((s, e), z) \<in> set (scan_line m line) \<and>
              map_of (scan_line m line) (s, s) = map_of m (s, s)"
    using scan_parts_keeps[OF assms Cons.prems] Cons.prems by (simp add: scan_line_def)
  from Cons.IH[of "scan_line m line"] step show ?case by simp
qed

text \<open>
  C8.  If the regular-expression pass over a page text registers a range \<open>(s, e)\<close> with
  \<open>s \<noteq> e\<close>, the token scan never writes the single-code range \<open>(s, s)\<close>: the entry of
  \<open>(s, s)\<close> in the finished map is the one the regular-expression pass left, so it is
  absent whenever that pass did not register it itself, and the range \<open>(s, e)\<close> keeps its
  zone code.
\<close>

theorem fallback_respects_ranges:
  assumes "((s, e), z) \<in> set (regex_pass text)" and "s \<noteq> e"
  shows "map_of (postal_map_of_text text) (s, s) = map_of (regex_pass text) (s, s) \<and>
         ((s, s) \<notin> fst ` set (regex_pass text) \<longrightarrow>
            (s, s) \<notin> fst ` set (postal_map_of_text text)) \<and>
         ((s, e), z) \<in> set (postal_map_of_text text)"
proof -
  have k: "((s, e), z) \<in> set (postal_map_of_text text) \<and>
           map_of (postal_map_of_text text) (s, s) = map_of (regex_pass text) (s, s)"
    unfolding postal_map_of_text_def token_pass_def
    by (rule token_lines_keep[OF assms(2,1)])
  have "(s, s) \<notin> fst ` set (regex_pass text) \<longrightarrow> (s, s) \<notin> fst ` set (postal_map_of_text text)"
    using k by (metis map_of_eq_None_iff)
  then show ?thesis using k by simp
qed

theorem fallback_respects_ranges_witness:
  "((''M5V'', ''M5Z''), ''DB'') \<in> set (regex_pass covered_example) \<and> ''M5V'' \<noteq> ''M5Z'' \<and>
   (''M5V'', ''M5V'') \<notin> fst ` set (regex_pass covered_example) \<and>
   (''M5V'', ''M5V'') \<notin> fst ` set (postal_map_of_text covered_example) \<and>
   map_of (postal_map_of_text covered_example) (''M4A'', ''M4A'') = Some ''DC''"
proof -
  have r: "regex_pass covered_example = [((''M5V'', ''M5Z''), ''DB'')]" by code_simp
  have p: "map_of (postal_map_of_text covered_example) (''M4A'', ''M4A'') = Some ''DC''"
    by code_simp
  have m: "((''M5V'', ''M5Z''), ''DB'') \<in> set (regex_pass covered_example)"
    unfolding r by simp
  have n: "''M5V'' \<noteq> ''M5Z''" by simp
  have a: "(''M5V'', ''M5V'') \<notin> fst ` set (regex_pass covered_example)"
    unfolding r by simp
  from fallback_respects_ranges[OF m n] a
  have "(''M5V'', ''M5V'') \<notin> fst ` set (postal_map_of_text covered_example)" by blast
  then show ?thesis using m n a p by blast
qed

section \<open>The zone matrix\<close>

lemma bind_dests_entry:
  "bind_dests origin ds vs zm (origin', dest') = Some v \<Longrightarrow>
   zm (origin', dest') = Some v \<or>
   (origin' = origin \<and> (\<exists>j. j < length ds \<and> j < length vs \<and> dest' = ds ! j \<and> v = vs ! j))"
proof (induction origin ds vs zm rule: bind_dests.induct)
  case (1 origin_zone dest_zone dest_zones v' vs zm)
  from "1.IH"[OF "1.prems"[simplified]]
  consider (old) "(zm((origin_zone, dest_zone) \<mapsto> v')) (origin', dest') = Some v"
    | (new) j where "origin' = origin_zone" "j < length dest_zones" "j < length vs"
        "dest' = dest_zones ! j" "v = vs ! j"
    by blast
  then show ?case
  proof cases
    case old
    show ?thesis
    proof (cases "(origin', dest') = (origin_zone, dest_zone)")
      case True
      then have "v = v'" using old by simp
      then show ?thesis using True by (intro disjI2) (auto intro: exI[of _ 0])
    next
      case False
      then show ?thesis using old by (auto split: if_splits)
    qed
  next
    case new
    then show ?thesis by (intro disjI2) (auto intro: exI[of _ "Suc j"])
  qed
qed auto

lemma matrix_inv_mono: "matrix_inv T zm \<Longrightarrow> T \<subseteq> T' \<Longrightarrow> matrix_inv T' zm"
  unfolding matrix_inv_def by blast

lemma bind_dests_inv:
  assumes "matrix_inv T zm" "origin \<in> set ZONE_CODES" "line \<in> T"
      and "length (ints_of_parts (str_split (str_strip line))) = length ZONE_CODES"
  shows "matrix_inv T (bind_dests origin ZONE_CODES (ints_of_parts (str_split (str_strip line))) zm)"
  unfolding matrix_inv_def
proof (intro allI impI)
  fix origin' dest' v
  let ?vals = "ints_of_parts (str_split (str_strip line))"
  assume "bind_dests origin ZONE_CODES ?vals zm (origin', dest') = Some v"
  from bind_dests_entry[OF this] show "origin' \<in> set ZONE_CODES \<and> dest' \<in> set ZONE_CODES \<and>
        (\<exists>line \<in> T.
           length (ints_of_parts (str_split (str_strip line))) = length ZONE_CODES \<and>
           (\<exists>j < length ZONE_CODES.
              dest' = ZONE_CODES ! j \<and> v = ints_of_parts (str_split (str_strip line)) ! j))"
  proof
    assume "zm (origin', dest') = Some v"
    then show ?thesis using assms(1) unfolding matrix_inv_def by blast
  next
    assume "origin' = origin \<and> (\<exists>j. j < length ZONE_CODES \<and> j < length ?vals \<and>
              dest' = ZONE_CODES ! j \<and> v = ?vals ! j)"
    then obtain j where j: "origin' = origin" "j < length ZONE_CODES" "dest' = ZONE_CODES ! j"
      "v = ?vals ! j" by blast
    have "dest' \<in> set ZONE_CODES" using j(2,3) by simp
    then show ?thesis using j assms(2,3,4) by blast
  qed
qed

lemma matrix_lines_inv:
  "matrix_inv T zm \<Longrightarrow> set values_lines \<subseteq> T \<Longrightarrow>
   matrix_inv T (matrix_lines origin_lines values_lines i zm)"
proof (induction origin_lines values_lines i zm rule: matrix_lines.induct)
  case (1 values_lines i zm)
  then show ?case by simp
next
  case (2 origin_line origin_lines values_lines i zm)
  let ?o = "str_strip origin_line"
  let ?vals = "ints_of_parts (str_split (str_strip (values_lines ! i)))"
  show ?case
  proof (cases "?o \<in> set ZONE_CODES \<and> i < length values_lines \<and> length ?vals = length ZONE_CODES")
    case True
    then have mem: "values_lines ! i \<in> T" using "2.prems"(2) by auto
    have inv: "matrix_inv T (bind_dests ?o ZONE_CODES ?vals zm)"
      using bind_dests_inv[OF "2.prems"(1) _ mem] True by simp
    have "matrix_lines (origin_line # origin_lines) values_lines i zm =
            matrix_lines origin_lines values_lines (i + 1) (bind_dests ?o ZONE_CODES ?vals zm)"
      using True by (simp add: Let_def)
    then show ?thesis using "2.IH"(2)[OF refl _ _ refl _ inv "2.prems"(2)] True by simp
  next
    case False
    then have "matrix_lines (origin_line # origin_lines) values_lines i zm =
            matrix_lines origin_lines values_lines (i + 1) zm"
      by (auto simp: Let_def)
    moreover have "matrix_inv T (matrix_lines origin_lines values_lines (i + 1) zm)"
      using False "2.IH" "2.prems" by (auto simp: Let_def)
    ultimately show ?thesis by simp
  qed
qed

lemma matrix_row_inv:
  assumes "matrix_inv T zm" "row \<in> set table" "value_lines table \<subseteq> T"
  shows "matrix_inv T (matrix_row zm row)"
proof (cases "length row < 2")
  case True
  then have "matrix_row zm row = zm" by (cases row; cases "tl row") auto
  then show ?thesis using assms(1) by simp
next
  case False
  then obtain c0 c1 cells where r: "row = c0 # c1 # cells"
    by (cases row; cases "tl row") auto
  have "set (split_lines (str_strip (cell_str c1))) \<subseteq> value_lines table"
    using assms(2) unfolding value_lines_def r by force
  then have sub: "set (split_lines (str_strip (cell_str c1))) \<subseteq> T" using assms(3) by blast
  have "matrix_inv T (matrix_lines ols (split_lines (str_strip (cell_str c1))) 0 zm)" for ols
    by (rule matrix_lines_inv[OF assms(1) sub])
  then show ?thesis using assms(1) unfolding r by (simp add: Let_def)
qed

lemma matrix_rows_inv:
  "matrix_inv T zm \<Longrightarrow> set rows \<subseteq> set table \<Longrightarrow> value_lines table \<subseteq> T \<Longrightarrow>
   matrix_inv T (foldl matrix_row zm rows)"
proof (induction rows arbitrary: zm)
  case Nil
  then show ?case by simp
next
  case (Cons row rows)
  have "matrix_inv T (matrix_row zm row)"
    using matrix_row_inv[OF Cons.prems(1) _ Cons.prems(3)] Cons.prems(2) by simp
  from Cons.IH[OF this] Cons.prems show ?case by simp
qed

lemma longest_from_mem: "longest_from best ts \<in> set (best # ts)"
  by (induction ts arbitrary: best) (auto split: if_splits)

text \<open>
  C9, as the code has it.  Every entry the matrix parser stores has catalog zone codes as
  origin and destination, and its value is an integer read by \<open>int()\<close>: the one at the
  destination's catalog position in a line of the second cell of a row of a table of the
  matrix page, that line holding exactly as many integers as the catalog has codes.  No
  range is checked.
\<close>

theorem matrix_entries_are_parsed_integers:
  assumes "parse_zone_matrix pdf zone_matrix_page = Inr zm" and "zm (origin, dest) = Some v"
  shows "origin \<in> set ZONE_CODES \<and> dest \<in> set ZONE_CODES \<and>
     (\<exists>i pg. zone_matrix_page = Some i \<and> page_at pdf i = Inr pg \<and>
        (\<exists>table \<in> set (extract_tables pg). \<exists>row \<in> set table. 2 \<le> length row \<and>
           (\<exists>line \<in> set (split_lines (str_strip (cell_str (row ! 1)))).
              length (ints_of_parts (str_split (str_strip line))) = length ZONE_CODES \<and>
              (\<exists>j < length ZONE_CODES.
                 dest = ZONE_CODES ! j \<and> v = ints_of_parts (str_split (str_strip line)) ! j))))"
proof -
  obtain i where i: "zone_matrix_page = Some i"
    using assms by (cases zone_matrix_page) (auto simp: parse_zone_matrix_def)
  obtain pg where pg: "page_at pdf i = Inr pg" and zm: "zm = matrix_of_tables (extract_tables pg)"
    using assms(1) unfolding parse_zone_matrix_def i
    by (cases "page_at pdf i") auto
  obtain t ts where ts: "extract_tables pg = t # ts"
    using assms(2) unfolding zm matrix_of_tables_def by (cases "extract_tables pg") auto
  let ?table = "longest_from t ts"
  have mem: "?table \<in> set (extract_tables pg)"
    unfolding ts by (rule longest_from_mem)
  have e: "matrix_inv (value_lines ?table) Map.empty" by (simp add: matrix_inv_def)
  have "matrix_inv (value_lines ?table) (foldl matrix_row Map.empty ?table)"
    by (rule matrix_rows_inv[OF e, where table = "longest_from t ts"]) simp_all
  then have "matrix_inv (value_lines ?table) zm"
    unfolding zm matrix_of_tables_def ts by simp
  with assms(2) have o: "origin \<in> set ZONE_CODES \<and> dest \<in> set ZONE_CODES"
    and l: "\<exists>line \<in> value_lines ?table.
           length (ints_of_parts (str_split (str_strip line))) = length ZONE_CODES \<and>
           (\<exists>j < length ZONE_CODES.
              dest = ZONE_CODES ! j \<and> v = ints_of_parts (str_split (str_strip line)) ! j)"
    unfolding matrix_inv_def by blast+
  from l obtain line where line: "line \<in> value_lines ?table"
    "length (ints_of_parts (str_split (str_strip line))) = length ZONE_CODES \<and>
           (\<exists>j < length ZONE_CODES.
              dest = ZONE_CODES ! j \<and> v = ints_of_parts (str_split (str_strip line)) ! j)"
    by blast
  from line(1) obtain row where row: "row \<in> set ?table" "2 \<le> length row"
    "line \<in> set (split_lines (str_strip (cell_str (row ! 1))))"
    unfolding value_lines_def by blast
  show ?thesis using o i pg mem row line(2) by blast
qed

text \<open>
  C9 as stated fails: a row for origin DA whose values line starts with 0 stores the
  distance 0 for (DA, DA), outside the range 1 to 16.
\<close>

theorem matrix_stores_zero:
  "matrix_entry (parse_zone_matrix zero_matrix_example (Some 0)) ''DA'' ''DA'' = Some 0"
  by code_simp

theorem matrix_entries_are_parsed_integers_witness:
  "parse_zone_matrix zero_matrix_example (Some 0) =
     Inr (matrix_of_tables (extract_tables (zero_matrix_example ! 0))) \<and>
   matrix_of_tables (extract_tables (zero_matrix_example ! 0)) (''DA'', ''DC'') = Some 2 \<and>
   ''DA'' \<in> set ZONE_CODES \<and> ''DC'' \<in> set ZONE_CODES"
proof -
  have p: "parse_zone_matrix zero_matrix_example (Some 0) =
     Inr (matrix_of_tables (extract_tables (zero_matrix_example ! 0)))"
    by (simp add: parse_zone_matrix_def page_at_def zero_matrix_example_def)
  have v: "matrix_of_tables (extract_tables (zero_matrix_example ! 0)) (''DA'', ''DC'') = Some 2"
    by code_simp
  from matrix_entries_are_parsed_integers[OF p v]
  have "''DA'' \<in> set ZONE_CODES \<and> ''DC'' \<in> set ZONE_CODES" by blast
  then show ?thesis using p v by blast
qed

section \<open>The command without a matrix page\<close>









end
